theory Spec2Isabelle
  imports Complex_Main "HOL-Library.Sublist"
begin

section \<open>Texts\<close>

text \<open>
  A text of \<^verbatim>\<open>src/server.ts\<close> is a sequence of UTF-16 code units. The model takes the
  texts whose code units are below 256 (Basic Latin and Latin-1 Supplement): a text is a
  \<^typ>\<open>string\<close>, one \<^typ>\<open>char\<close> per code unit. The character tests below are those
  of ECMAScript on that range.
\<close>

definition code :: "char \<Rightarrow> nat" where
  "code c = of_char c"

text \<open>White space and line terminators: what \<^verbatim>\<open>\s\<close> matches and \<^verbatim>\<open>trim()\<close> strips
  (TAB, LF, VT, FF, CR, SP, NBSP).\<close>

definition isSpace :: "char \<Rightarrow> bool" where
  "isSpace c = (code c \<in> {9, 10, 11, 12, 13, 32, 160})"

text \<open>\<^verbatim>\<open>\d\<close>\<close>

definition isDigit :: "char \<Rightarrow> bool" where
  "isDigit c = (48 \<le> code c \<and> code c \<le> 57)"

text \<open>\<^verbatim>\<open>.\<close> without the \<^verbatim>\<open>s\<close> flag: anything but a line terminator (LF, CR).\<close>

definition isDot :: "char \<Rightarrow> bool" where
  "isDot c = (code c \<notin> {10, 13})"

text \<open>The upper-case letters: A-Z, and the Latin-1 capitals 0xC0-0xDE without the
  multiplication sign 0xD7. Each has its lower-case form 32 code units above.\<close>

definition isUpper :: "char \<Rightarrow> bool" where
  "isUpper c = ((65 \<le> code c \<and> code c \<le> 90) \<or> (192 \<le> code c \<and> code c \<le> 222 \<and> code c \<noteq> 215))"

definition lowerChar :: "char \<Rightarrow> char" where
  "lowerChar c = (if isUpper c then char_of (code c + 32) else c)"

text \<open>\<^verbatim>\<open>String.prototype.toLowerCase\<close>\<close>

definition toLowerCase :: "string \<Rightarrow> string" where
  "toLowerCase s = map lowerChar s"

text \<open>\<^verbatim>\<open>String.prototype.trim\<close>\<close>

definition trim :: "string \<Rightarrow> string" where
  "trim s = rev (dropWhile isSpace (rev (dropWhile isSpace s)))"

text \<open>\<^verbatim>\<open>String.prototype.includes\<close>: the needle starts at some position of the text.\<close>

fun includes_str :: "string \<Rightarrow> string \<Rightarrow> bool" where
  "includes_str [] k = (k = [])"
| "includes_str (c # cs) k = (prefix k (c # cs) \<or> includes_str cs k)"

text \<open>\<^verbatim>\<open>Array.prototype.join\<close>\<close>

fun join :: "string \<Rightarrow> string list \<Rightarrow> string" where
  "join sep [] = []"
| "join sep [x] = x"
| "join sep (x # y # ys) = x @ sep @ join sep (y # ys)"

text \<open>\<^verbatim>\<open>split(/-/)\<close>: the pieces between the hyphens, every hyphen a separator. The first
  argument holds the piece being read, reversed.\<close>

fun splitHyphen :: "string \<Rightarrow> string \<Rightarrow> string list" where
  "splitHyphen acc [] = [rev acc]"
| "splitHyphen acc (c # cs) =
     (if c = CHR ''-'' then rev acc # splitHyphen [] cs else splitHyphen (c # acc) cs)"

section \<open>Regular expressions\<close>

text \<open>
  The regular expressions of the source use literals, character classes, sequence,
  alternation, greedy and lazy repetition, one capture group and \<^verbatim>\<open>$\<close>. \<open>Rep g r\<close> is
  \<^verbatim>\<open>r*\<close> when \<open>g\<close> holds and \<^verbatim>\<open>r*?\<close> otherwise; \<^verbatim>\<open>r+\<close> is \<open>Seq r (Rep True r)\<close>
  and \<^verbatim>\<open>r?\<close> is \<open>Alt r Eps\<close>.
\<close>

datatype rx =
    Eps
  | Chr "char \<Rightarrow> bool"
  | Seq rx rx
  | Alt rx rx
  | Rep bool rx
  | Grp rx
  | Eoi

text \<open>
  \<open>ms r s c\<close> lists, in the order in which a backtracking matcher tries them, the ways
  in which \<open>r\<close> matches at the start of the remaining input \<open>s\<close>: each is the input left
  after the match and the text captured by the group (\<open>c\<close> before the match). An
  iteration of a repetition that consumes nothing is rejected, as ECMAScript does. No
  pattern of the source has its group inside a repetition, where ECMAScript would
  clear it at the start of each iteration.
\<close>

function ms :: "rx \<Rightarrow> string \<Rightarrow> string option \<Rightarrow> (string \<times> string option) list" where
  "ms Eps s c = [(s, c)]"
| "ms (Chr p) s c = (case s of [] \<Rightarrow> [] | x # xs \<Rightarrow> if p x then [(xs, c)] else [])"
| "ms (Seq r1 r2) s c = concat (map (\<lambda>(s', c'). ms r2 s' c') (ms r1 s c))"
| "ms (Alt r1 r2) s c = ms r1 s c @ ms r2 s c"
| "ms (Rep g r) s c =
     (let more = concat (map (\<lambda>(s', c'). if length s' < length s then ms (Rep g r) s' c' else [])
                          (ms r s c))
      in if g then more @ [(s, c)] else (s, c) # more)"
| "ms (Grp r) s c = map (\<lambda>(s', c'). (s', Some (take (length s - length s') s))) (ms r s c)"
| "ms Eoi s c = (if s = [] then [(s, c)] else [])"
  by pat_completeness auto
termination
  by (relation "measures [\<lambda>(r, s, c). size r, \<lambda>(r, s, c). length s]") auto

text \<open>A literal under the \<^verbatim>\<open>i\<close> flag: each character up to case.\<close>

definition lit :: "string \<Rightarrow> rx" where
  "lit w = foldr (\<lambda>x r. Seq (Chr (\<lambda>c. lowerChar c = lowerChar x)) r) w Eps"

text \<open>
  \<^verbatim>\<open>String.prototype.match\<close> with a regular expression without the \<^verbatim>\<open>g\<close> flag: the
  first way of matching at the leftmost position that has one. The result is \<open>None\<close> for
  \<^verbatim>\<open>null\<close>, and otherwise the capture group (\<open>None\<close> for \<^verbatim>\<open>undefined\<close>).
\<close>

fun match :: "rx \<Rightarrow> string \<Rightarrow> string option option" where
  "match r [] = (case ms r [] None of [] \<Rightarrow> None | (s', c') # _ \<Rightarrow> Some c')"
| "match r (x # xs) = (case ms r (x # xs) None of [] \<Rightarrow> match r xs | (s', c') # _ \<Rightarrow> Some c')"

text \<open>\<^verbatim>\<open>r+\<close> and \<^verbatim>\<open>r+?\<close>, \<^verbatim>\<open>r?\<close>\<close>

definition plus_rx :: "bool \<Rightarrow> rx \<Rightarrow> rx" where
  "plus_rx g r = Seq r (Rep g r)"

definition opt_rx :: "rx \<Rightarrow> rx" where
  "opt_rx r = Alt r Eps"

section \<open>Extraction from the synthesis text\<close>

datatype error = TypeError | Rejected

text \<open>\<^verbatim>\<open>/\*\*Final Recommendation:\*\*\s*(.+?)(?:\n|$)/i\<close>\<close>

definition decisionRx :: rx where
  "decisionRx =
     Seq (lit ''**Final Recommendation:**'')
       (Seq (Rep True (Chr isSpace))
         (Seq (Grp (plus_rx False (Chr isDot)))
           (Alt (lit [CHR 0x0A]) Eoi)))"

text \<open>\<^verbatim>\<open>/\*\*Why.*?\*\*([\s\S]*?)(?:\*\*|$)/i\<close>\<close>

definition whyRx :: rx where
  "whyRx =
     Seq (lit ''**Why'')
       (Seq (Rep False (Chr isDot))
         (Seq (lit ''**'')
           (Seq (Grp (Rep False (Chr (\<lambda>c. True))))
             (Alt (lit ''**'') Eoi))))"

text \<open>
  \<^verbatim>\<open>decisionMatch ? decisionMatch[1].trim() : "No clear decision reached"\<close>. Calling
  \<^verbatim>\<open>trim\<close> on an \<^verbatim>\<open>undefined\<close> group would throw a TypeError.
\<close>

definition extractDecision :: "string \<Rightarrow> error + string" where
  "extractDecision text =
     (case match decisionRx text of
        None \<Rightarrow> Inr ''No clear decision reached''
      | Some None \<Rightarrow> Inl TypeError
      | Some (Some g) \<Rightarrow> Inr (trim g))"

text \<open>
  \<^verbatim>\<open>reasoningMatches ? reasoningMatches[1].split(/-/).filter((r) => r.trim())
  .map((r) => r.trim()).slice(0, 3) : ["Decision made based on agent perspectives"]\<close>
\<close>

definition extractReasoning :: "string \<Rightarrow> error + string list" where
  "extractReasoning text =
     (case match whyRx text of
        None \<Rightarrow> Inr [''Decision made based on agent perspectives'']
      | Some None \<Rightarrow> Inl TypeError
      | Some (Some g) \<Rightarrow>
          Inr (take 3 (map trim (filter (\<lambda>r. trim r \<noteq> []) (splitHyphen [] g)))))"

section \<open>Metrics from the question\<close>

text \<open>
  A JavaScript number that \<^verbatim>\<open>parseFloat\<close> returns: \<open>NaN\<close>, \<open>Infinity\<close>, or \<open>Num q\<close>
  for the double nearest to the decimal \<open>q\<close> that was read (6.5 and 120 are doubles
  themselves). A decimal rounds to \<open>Infinity\<close> from \<open>2 ^ 1024 - 2 ^ 970\<close> on, half
  way between the largest double and \<open>2 ^ 1024\<close>.
\<close>

datatype number = NaN | Infinity | Num rat

definition roundToDouble :: "rat \<Rightarrow> number" where
  "roundToDouble q = (if 2 ^ 1024 - 2 ^ 970 \<le> q then Infinity else Num q)"

definition digitsValue :: "string \<Rightarrow> nat" where
  "digitsValue ds = foldl (\<lambda>n c. 10 * n + (code c - 48)) 0 ds"

text \<open>
  \<^verbatim>\<open>parseFloat\<close> on a text that starts with digits and dots, which is what the capture
  groups below hold (no sign, no exponent): the longest prefix of the form
  \<^verbatim>\<open>digits\<close>, \<^verbatim>\<open>digits.digits\<close> or \<^verbatim>\<open>.digits\<close> is read, and \<open>NaN\<close> is the result
  when that prefix has no digit.
\<close>

definition parseFloat :: "string \<Rightarrow> number" where
  "parseFloat s =
     (let ip = takeWhile isDigit s;
          rest = dropWhile isDigit s;
          fp = (case rest of [] \<Rightarrow> [] | x # xs \<Rightarrow> if x = CHR ''.'' then takeWhile isDigit xs else [])
      in if ip = [] \<and> fp = [] then NaN
         else roundToDouble (of_nat (digitsValue ip) + of_nat (digitsValue fp) / 10 ^ length fp))"

text \<open>\<^verbatim>\<open>/error rate[:\s]+([\d.]+%?)/i\<close>\<close>

definition errorRateRx :: rx where
  "errorRateRx =
     Seq (lit ''error rate'')
       (Seq (plus_rx True (Chr (\<lambda>c. c = CHR '':'' \<or> isSpace c)))
         (Grp (Seq (plus_rx True (Chr (\<lambda>c. isDigit c \<or> c = CHR ''.'')))
                (opt_rx (lit ''%'')))))"

text \<open>\<^verbatim>\<open>/(?:latency|p95)[:\s]+([\d.]+ms?)/i\<close>\<close>

definition latencyRx :: rx where
  "latencyRx =
     Seq (Alt (lit ''latency'') (lit ''p95''))
       (Seq (plus_rx True (Chr (\<lambda>c. c = CHR '':'' \<or> isSpace c)))
         (Grp (Seq (plus_rx True (Chr (\<lambda>c. isDigit c \<or> c = CHR ''.'')))
                (Seq (lit ''m'') (opt_rx (lit ''s''))))))"

record metrics =
  errorRate :: "number option"
  latency :: "number option"
  throughput :: "number option"

text \<open>
  Lines 598-611: the snapshot starts empty and gets the fields whose pattern matches.
  \<^verbatim>\<open>parseFloat(undefined)\<close> is \<open>NaN\<close>.
\<close>

definition matchedNumber :: "rx \<Rightarrow> string \<Rightarrow> number option" where
  "matchedNumber r q =
     (case match r q of
        None \<Rightarrow> None
      | Some None \<Rightarrow> Some NaN
      | Some (Some g) \<Rightarrow> Some (parseFloat g))"

definition extractMetrics :: "string \<Rightarrow> metrics" where
  "extractMetrics q =
     \<lparr>errorRate = matchedNumber errorRateRx q,
      latency = matchedNumber latencyRx q,
      throughput = None\<rparr>"

text \<open>
  Lines 618-621: \<^verbatim>\<open>Object.keys(metricsSnapshot).length > 0 ? metricsSnapshot : undefined\<close>
\<close>

definition metricsSnapshotOf :: "string \<Rightarrow> metrics option" where
  "metricsSnapshotOf q =
     (let m = extractMetrics q
      in if errorRate m \<noteq> None \<or> latency m \<noteq> None \<or> throughput m \<noteq> None then Some m else None)"

section \<open>Incidents and the coordinator's state\<close>

datatype status = Open | Resolved | Monitoring

record hypotheses =
  reliability :: string
  cost :: string
  ux :: string

record IncidentMemory =
  id_inc :: string
  question :: string
  timestamp :: string
  status :: status
  metricsSnapshot :: "metrics option"
  hypotheses :: hypotheses
  decision :: string
  reasoning :: "string list"
  summary :: "string option"

text \<open>
  \<^verbatim>\<open>currentState.incidents\<close> is a reference to an array, and \<^verbatim>\<open>filter\<close> and the spread
  \<^verbatim>\<open>[...xs, x]\<close> make a new array while \<^verbatim>\<open>sort\<close> reorders the array it is called on. So
  the arrays live in a store, and a state holds the address of its array.
\<close>

type_synonym addr = nat

record DebateCoordinatorState =
  incidents :: addr
  lastUpdated :: string

datatype role = ReliabilityAgent | CostAgent | UXAgent

text \<open>What a turn does to the outside, in the order in which it does it.\<close>

datatype event =
    LookedUp role "error + unit"
  | Dispatched role string
  | Settled role "error + string"
  | Streamed string
  | RegularChat
  | StateSet "IncidentMemory list" string

text \<open>
  The agent instance: \<^verbatim>\<open>this.state\<close> (\<open>None\<close> for \<^verbatim>\<open>undefined\<close>),
  \<^verbatim>\<open>this.initialState\<close>, the arrays with the next free address, and the events so far.
\<close>

record agent =
  state :: "DebateCoordinatorState option"
  initialState :: DebateCoordinatorState
  arrays :: "addr \<Rightarrow> IncidentMemory list"
  free :: addr
  trace :: "event list"

text \<open>\<^verbatim>\<open>(this.state || this.initialState)\<close>\<close>

definition currentState :: "agent \<Rightarrow> DebateCoordinatorState" where
  "currentState a = (case state a of None \<Rightarrow> initialState a | Some s \<Rightarrow> s)"

text \<open>The incidents that the agent holds now, in their stored order.\<close>

definition stored :: "agent \<Rightarrow> IncidentMemory list" where
  "stored a = arrays a (incidents (currentState a))"

definition newArray :: "IncidentMemory list \<Rightarrow> agent \<Rightarrow> addr \<times> agent" where
  "newArray xs a = (free a, a\<lparr>arrays := (arrays a)(free a := xs), free := Suc (free a)\<rparr>)"

text \<open>
  \<^verbatim>\<open>this.setState\<close> makes the given object the agent's state, and \<^verbatim>\<open>this.state\<close>
  is that object from then on: a later reading gets the same array, not a copy.
\<close>

definition setState :: "DebateCoordinatorState \<Rightarrow> agent \<Rightarrow> agent" where
  "setState s a =
     a\<lparr>state := Some s, trace := trace a @ [StateSet (arrays a (incidents s)) (lastUpdated s)]\<rparr>"

subsection \<open>getIncidents\<close>

text \<open>Lines 375-383: the filter's predicate, \<open>query\<close> already in lower case.\<close>

definition matchesQuery :: "string \<Rightarrow> IncidentMemory \<Rightarrow> bool" where
  "matchesQuery query incident =
     (includes_str (toLowerCase (question incident)) query \<or>
      includes_str (toLowerCase (decision incident)) query \<or>
      includes_str (toLowerCase (reliability (hypotheses incident))) query \<or>
      includes_str (toLowerCase (cost (hypotheses incident))) query \<or>
      includes_str (toLowerCase (ux (hypotheses incident))) query \<or>
      list_ex (\<lambda>r. includes_str (toLowerCase r) query) (reasoning incident) \<or>
      (case summary incident of
         None \<Rightarrow> False
       | Some s \<Rightarrow> s \<noteq> [] \<and> includes_str (toLowerCase s) query))"

text \<open>
  Lines 386-389: \<^verbatim>\<open>sort\<close> with the comparator
  \<^verbatim>\<open>new Date(b.timestamp).getTime() - new Date(a.timestamp).getTime()\<close> is a stable sort
  by falling time. \<open>getTime s\<close> stands for \<^verbatim>\<open>new Date(s).getTime()\<close> on the time stamps
  that \<^verbatim>\<open>toISOString\<close> writes.
\<close>

definition sortNewestFirst :: "(string \<Rightarrow> int) \<Rightarrow> IncidentMemory list \<Rightarrow> IncidentMemory list" where
  "sortNewestFirst getTime xs = sort_key (\<lambda>i. - getTime (timestamp i)) xs"

text \<open>\<^verbatim>\<open>xs.sort(...)\<close>: the array at the address is reordered, the address is the result.\<close>

definition sortInPlace :: "(string \<Rightarrow> int) \<Rightarrow> addr \<Rightarrow> agent \<Rightarrow> addr \<times> agent" where
  "sortInPlace getTime p a =
     (p, a\<lparr>arrays := (arrays a)(p := sortNewestFirst getTime (arrays a p))\<rparr>)"

text \<open>
  Lines 369-390. \<^verbatim>\<open>if (searchQuery)\<close> holds for a query that is given and not empty. The
  result is the address of the sorted array, with the agent after the call.
\<close>

definition getIncidents :: "(string \<Rightarrow> int) \<Rightarrow> string option \<Rightarrow> agent \<Rightarrow> addr \<times> agent" where
  "getIncidents getTime searchQuery a =
     (let incidents0 = incidents (currentState a);
          (incidents1, a1) =
            (case searchQuery of
               None \<Rightarrow> (incidents0, a)
             | Some q \<Rightarrow>
                 if q = [] then (incidents0, a)
                 else newArray (filter (matchesQuery (toLowerCase q)) (arrays a incidents0)) a)
      in sortInPlace getTime incidents1 a1)"

subsection \<open>deleteIncident\<close>

record deleteResult =
  success :: bool
  deletedId :: string

text \<open>Lines 395-406; \<open>now\<close> is \<^verbatim>\<open>new Date().toISOString()\<close> at the call.\<close>

definition deleteIncident :: "string \<Rightarrow> string \<Rightarrow> agent \<Rightarrow> deleteResult \<times> agent" where
  "deleteIncident now i a =
     (let cur = currentState a;
          (nextIncidents, a1) = newArray (filter (\<lambda>x. id_inc x \<noteq> i) (arrays a (incidents cur))) a
      in (\<lparr>success = True, deletedId = i\<rparr>,
          setState (cur\<lparr>incidents := nextIncidents, lastUpdated := now\<rparr>) a1))"

subsection \<open>onChatMessage\<close>

text \<open>
  The calls that leave the coordinator, each with what it returns or that it throws:
  \<^verbatim>\<open>getAgentByName\<close> for the agent of a role, \<^verbatim>\<open>getPerspective\<close> of that agent on
  a question, \<^verbatim>\<open>await synthesis.text\<close> of the synthesis request with a given user content, the text
  of the summary request with a given user content, \<^verbatim>\<open>generateId()\<close> and the two
  readings of \<^verbatim>\<open>new Date().toISOString()\<close>.
\<close>

record env =
  getAgentByName :: "role \<Rightarrow> error + unit"
  getPerspective :: "role \<Rightarrow> string \<Rightarrow> error + string"
  synthesisText :: "string \<Rightarrow> error + string"
  summaryText :: "string \<Rightarrow> error + string"
  generateId :: string
  createdAt :: string
  updatedAt :: string

datatype part = TextPart string | OtherPart

record message =
  parts :: "part list option"

definition isText :: "part \<Rightarrow> bool" where
  "isText p = (case p of TextPart t \<Rightarrow> True | OtherPart \<Rightarrow> False)"

text \<open>Lines 470-472:
  \<^verbatim>\<open>lastMessage?.parts?.find((p) => p.type === "text")?.text || ""\<close>\<close>

definition userQuestionOf :: "message list \<Rightarrow> string" where
  "userQuestionOf processedMessages =
     (if processedMessages = [] then []
      else case parts (last processedMessages) of
             None \<Rightarrow> []
           | Some ps \<Rightarrow> (case find isText ps of Some (TextPart t) \<Rightarrow> t | _ \<Rightarrow> []))"

definition decisionKeywords :: "string list" where
  "decisionKeywords =
     [''rollback'', ''deploy'', ''hotfix'', ''launch'', ''release'', ''should we'', ''decision'']"

text \<open>Lines 484-486\<close>

definition isDecisionQuestion :: "string \<Rightarrow> bool" where
  "isDecisionQuestion userQuestion =
     list_ex (\<lambda>keyword. includes_str (toLowerCase userQuestion) keyword) decisionKeywords"

definition unavailable :: "role \<Rightarrow> string" where
  "unavailable r =
     (case r of
        ReliabilityAgent \<Rightarrow> ''Reliability Agent unavailable.''
      | CostAgent \<Rightarrow> ''Cost Agent unavailable.''
      | UXAgent \<Rightarrow> ''UX / User Impact Agent unavailable.'')"

text \<open>
  One \<^verbatim>\<open>try { ... } catch { ... }\<close> block (lines 494-527). The coordinator first
  awaits \<^verbatim>\<open>getAgentByName\<close>; if that throws, no call is sent. Otherwise
  \<^verbatim>\<open>getPerspective\<close> is sent and the coordinator waits until it has settled. The
  perspective is the text of the call, or the fixed sentence of the role when either
  step has thrown.
\<close>

definition awaitPerspective :: "env \<Rightarrow> role \<Rightarrow> string \<Rightarrow> agent \<Rightarrow> string \<times> agent" where
  "awaitPerspective e r q a =
     (let found = getAgentByName e r;
          a1 = a\<lparr>trace := trace a @ [LookedUp r found]\<rparr>
      in case found of
           Inl err \<Rightarrow> (unavailable r, a1)
         | Inr stub \<Rightarrow>
             (let a2 = a1\<lparr>trace := trace a1 @ [Dispatched r q]\<rparr>;
                  res = getPerspective e r q;
                  a3 = a2\<lparr>trace := trace a2 @ [Settled r res]\<rparr>
              in (case res of Inl err \<Rightarrow> unavailable r | Inr t \<Rightarrow> t, a3)))"

definition nl :: string where
  "nl = [CHR 0x0A]"

text \<open>Lines 555-566: the user content of the synthesis request.\<close>

definition synthesisContent :: "string \<Rightarrow> hypotheses \<Rightarrow> string" where
  "synthesisContent userQuestion h =
     ''Question: '' @ userQuestion @ nl @ nl @
     ''Reliability Agent Perspective:'' @ nl @ reliability h @ nl @ nl @
     ''Cost Agent Perspective:'' @ nl @ cost h @ nl @ nl @
     ''UX / User Impact Agent Perspective:'' @ nl @ ux h @ nl @ nl @
     ''Synthesize a final recommendation that considers all perspectives.''"

text \<open>Lines 430-438: the user content of the summary request.\<close>

definition summaryContent :: "IncidentMemory \<Rightarrow> string" where
  "summaryContent incident =
     ''Question: '' @ question incident @ nl @ nl @
     ''Perspectives:'' @ nl @
     ''- Reliability: '' @ reliability (hypotheses incident) @ nl @
     ''- Cost/Effort: '' @ cost (hypotheses incident) @ nl @
     ''- UX/User Impact: '' @ ux (hypotheses incident) @ nl @ nl @
     ''Decision: '' @ decision incident @ nl @
     ''Reasoning: '' @ join ''; '' (reasoning incident)"

definition generateSummary :: "env \<Rightarrow> IncidentMemory \<Rightarrow> error + string" where
  "generateSummary e incident = summaryText e (summaryContent incident)"

text \<open>Lines 578-595: both fields, or the error that the first failing step throws.\<close>

definition extraction :: "string \<Rightarrow> error + string \<times> string list" where
  "extraction text =
     (case extractDecision text of
        Inl err \<Rightarrow> Inl err
      | Inr d \<Rightarrow> (case extractReasoning text of Inl err \<Rightarrow> Inl err | Inr rs \<Rightarrow> Inr (d, rs)))"

text \<open>Lines 613-629: the incident as it is built, before the summary is set.\<close>

definition newIncident :: "env \<Rightarrow> string \<Rightarrow> hypotheses \<Rightarrow> string \<Rightarrow> string list \<Rightarrow> IncidentMemory" where
  "newIncident e userQuestion h d rs =
     \<lparr>id_inc = generateId e,
      question = userQuestion,
      timestamp = createdAt e,
      status = Open,
      metricsSnapshot = metricsSnapshotOf userQuestion,
      hypotheses = h,
      decision = d,
      reasoning = rs,
      summary = None\<rparr>"

text \<open>
  Lines 575-645, the task that is started after the stream and not awaited: every
  step that throws ends it in the \<^verbatim>\<open>catch\<close>, which only logs. The state is read after
  the last \<^verbatim>\<open>await\<close>.
\<close>

definition storeIncident :: "env \<Rightarrow> string \<Rightarrow> hypotheses \<Rightarrow> agent \<Rightarrow> agent" where
  "storeIncident e userQuestion h a =
     (case synthesisText e (synthesisContent userQuestion h) of
        Inl err \<Rightarrow> a
      | Inr text \<Rightarrow>
          (case extraction text of
             Inl err \<Rightarrow> a
           | Inr (d, rs) \<Rightarrow>
               (let incident = newIncident e userQuestion h d rs
                in case generateSummary e incident of
                     Inl err \<Rightarrow> a
                   | Inr s \<Rightarrow>
                       (let incident1 = incident\<lparr>summary := Some s\<rparr>;
                            cur = currentState a;
                            (appended, a1) = newArray (arrays a (incidents cur) @ [incident1]) a
                        in setState (cur\<lparr>incidents := appended, lastUpdated := updatedAt e\<rparr>) a1))))"

text \<open>
  Lines 470-572 and 650-670: the turn up to the stream. For a decision question the
  three perspectives are collected and the synthesis request is streamed; the result
  holds the question and the perspectives for the task above. Any other question takes
  the regular chat flow.
\<close>

definition debate :: "env \<Rightarrow> message list \<Rightarrow> agent \<Rightarrow> (string \<times> hypotheses) option \<times> agent" where
  "debate e processedMessages a =
     (let userQuestion = userQuestionOf processedMessages
      in if isDecisionQuestion userQuestion then
           (let (reliabilityPerspective, a1) = awaitPerspective e ReliabilityAgent userQuestion a;
                (costPerspective, a2) = awaitPerspective e CostAgent userQuestion a1;
                (uxPerspective, a3) = awaitPerspective e UXAgent userQuestion a2;
                h = \<lparr>reliability = reliabilityPerspective, cost = costPerspective, ux = uxPerspective\<rparr>;
                a4 = a3\<lparr>trace := trace a3 @ [Streamed (synthesisContent userQuestion h)]\<rparr>
            in (Some (userQuestion, h), a4))
         else (None, a\<lparr>trace := trace a @ [RegularChat]\<rparr>))"

text \<open>The whole turn when nothing else runs between the stream and the task.\<close>

definition onChatMessage :: "env \<Rightarrow> message list \<Rightarrow> agent \<Rightarrow> agent" where
  "onChatMessage e processedMessages a =
     (case debate e processedMessages a of
        (None, a1) \<Rightarrow> a1
      | (Some (userQuestion, h), a1) \<Rightarrow> storeIncident e userQuestion h a1)"

section \<open>The words of the specification\<close>

text \<open>Two characters are the same up to case.\<close>

definition sameLetter :: "char \<Rightarrow> char \<Rightarrow> bool" where
  "sameLetter a b =
     (a = b \<or> (isUpper a \<and> code b = code a + 32) \<or> (isUpper b \<and> code a = code b + 32))"

text \<open>\<open>ci_prefix k t\<close>: the text \<open>t\<close> starts with \<open>k\<close>, up to case.\<close>

fun ci_prefix :: "string \<Rightarrow> string \<Rightarrow> bool" where
  "ci_prefix [] t = True"
| "ci_prefix (x # xs) [] = False"
| "ci_prefix (x # xs) (c # cs) = (sameLetter c x \<and> ci_prefix xs cs)"

text \<open>\<open>ci_includes t k\<close>: \<open>k\<close> is a substring of \<open>t\<close>, case-insensitively.\<close>

fun ci_includes :: "string \<Rightarrow> string \<Rightarrow> bool" where
  "ci_includes [] k = (k = [])"
| "ci_includes (c # cs) k = (ci_prefix k (c # cs) \<or> ci_includes cs k)"

text \<open>\<open>beginsWithin k p rest\<close>: in the text \<open>p @ rest\<close>, an occurrence of \<open>k\<close> (up to case)
  begins inside \<open>p\<close>.\<close>

fun beginsWithin :: "string \<Rightarrow> string \<Rightarrow> string \<Rightarrow> bool" where
  "beginsWithin k [] rest = False"
| "beginsWithin k (c # p) rest = (ci_prefix k (c # p @ rest) \<or> beginsWithin k p rest)"

text \<open>The non-blank pieces of a text between its hyphens, trimmed.\<close>

definition nonBlankPieces :: "string \<Rightarrow> string list" where
  "nonBlankPieces s = map trim (filter (\<lambda>r. trim r \<noteq> []) (splitHyphen [] s))"

definition isDispatched :: "event \<Rightarrow> bool" where
  "isDispatched ev = (case ev of Dispatched r q \<Rightarrow> True | _ \<Rightarrow> False)"

definition isSettled :: "event \<Rightarrow> bool" where
  "isSettled ev = (case ev of Settled r res \<Rightarrow> True | _ \<Rightarrow> False)"

text \<open>Parallel dispatch: no call is sent after a call has settled.\<close>

definition dispatchedConcurrently :: "event list \<Rightarrow> bool" where
  "dispatchedConcurrently evs =
     (\<not> list_ex isDispatched (dropWhile (\<lambda>ev. \<not> isSettled ev) evs))"

text \<open>Some state update holds the record with the given id without a summary.\<close>

definition storedWithoutSummary :: "string \<Rightarrow> event list \<Rightarrow> bool" where
  "storedWithoutSummary i evs =
     list_ex (\<lambda>ev. case ev of
                     StateSet xs t \<Rightarrow> list_ex (\<lambda>x. id_inc x = i \<and> summary x = None) xs
                   | _ \<Rightarrow> False) evs"

section \<open>Example values\<close>

text \<open>The block of the specification's example, with its line feeds.\<close>

definition exampleBlock :: string where
  "exampleBlock =
     ''**Final Recommendation:**'' @ nl @ ''Roll back.'' @ nl @ nl @
     ''**Why:**'' @ nl @ ''- A'' @ nl @ ''- B''"

text \<open>\<^verbatim>\<open>new Date(s).getTime()\<close> at two time stamps.\<close>

definition exampleTime :: "string \<Rightarrow> int" where
  "exampleTime s =
     (if s = ''2024-01-01T00:00:00.000Z'' then 1704067200000
      else if s = ''2024-01-02T00:00:00.000Z'' then 1704153600000
      else 0)"

definition exampleIncident :: "string \<Rightarrow> string \<Rightarrow> IncidentMemory" where
  "exampleIncident i t =
     \<lparr>id_inc = i,
      question = ''Should we rollback?'',
      timestamp = t,
      status = Open,
      metricsSnapshot = None,
      hypotheses = \<lparr>reliability = ''Roll back.'', cost = ''Cheap.'', ux = ''Users first.''\<rparr>,
      decision = ''Roll back.'',
      reasoning = [''A''],
      summary = Some ''Rolled back.''\<rparr>"

definition older :: IncidentMemory where
  "older = exampleIncident ''a1'' ''2024-01-01T00:00:00.000Z''"

definition newer :: IncidentMemory where
  "newer = exampleIncident ''b2'' ''2024-01-02T00:00:00.000Z''"

text \<open>An agent that holds the two incidents in the order in which they were appended.\<close>

definition exampleAgent :: agent where
  "exampleAgent =
     \<lparr>state = Some \<lparr>incidents = 1, lastUpdated = ''2024-01-02T00:00:00.000Z''\<rparr>,
      initialState = \<lparr>incidents = 0, lastUpdated = ''2024-01-01T00:00:00.000Z''\<rparr>,
      arrays = (\<lambda>p. [])(1 := [older, newer]),
      free = 2,
      trace = []\<rparr>"

text \<open>Calls in which the cost agent fails and everything else answers.\<close>

definition exampleEnv :: env where
  "exampleEnv =
     \<lparr>getAgentByName = (\<lambda>r. Inr ()),
      getPerspective = (\<lambda>r q. case r of
                                ReliabilityAgent \<Rightarrow> Inr ''Roll back now.''
                              | CostAgent \<Rightarrow> Inl Rejected
                              | UXAgent \<Rightarrow> Inr ''Users are hurting.''),
      synthesisText = (\<lambda>c. Inr exampleBlock),
      summaryText = (\<lambda>c. Inr ''Rolled back.''),
      generateId = ''c3'',
      createdAt = ''2024-01-03T00:00:00.000Z'',
      updatedAt = ''2024-01-03T00:00:01.000Z''\<rparr>"

definition exampleMessages :: "message list" where
  "exampleMessages = [\<lparr>parts = Some [OtherPart, TextPart ''Should we launch?'']\<rparr>]"

text \<open>A turn whose last message is the given question.\<close>

definition asking :: "string \<Rightarrow> message list" where
  "asking q = [\<lparr>parts = Some [TextPart q]\<rparr>]"

section \<open>Character tests by the bits of a character\<close>

text \<open>The tests above, bit by bit, for evaluation.\<close>

lemma isSpace_Char [code]:
  "isSpace (Char b0 b1 b2 b3 b4 b5 b6 b7) =
     (\<not> b6 \<and> \<not> b4 \<and>
      (if b5 then \<not> b0 \<and> \<not> b1 \<and> \<not> b2 \<and> \<not> b3
       else \<not> b7 \<and> b3 \<and> (if b2 then \<not> b1 else b0 \<or> b1)))"
  by (cases b0; cases b1; cases b2; cases b3; cases b4; cases b5; cases b6; cases b7;
      simp add: isSpace_def code_def)

lemma isDigit_Char [code]:
  "isDigit (Char b0 b1 b2 b3 b4 b5 b6 b7) =
     (\<not> b7 \<and> \<not> b6 \<and> b5 \<and> b4 \<and> (b3 \<longrightarrow> \<not> b2 \<and> \<not> b1))"
  by (cases b0; cases b1; cases b2; cases b3; cases b4; cases b5; cases b6; cases b7;
      simp add: isDigit_def code_def)

lemma isDot_Char [code]:
  "isDot (Char b0 b1 b2 b3 b4 b5 b6 b7) =
     (\<not> (\<not> b7 \<and> \<not> b6 \<and> \<not> b5 \<and> \<not> b4 \<and> b3 \<and>
         (if b2 then b0 \<and> \<not> b1 else b1 \<and> \<not> b0)))"
  by (cases b0; cases b1; cases b2; cases b3; cases b4; cases b5; cases b6; cases b7;
      simp add: isDot_def code_def)

lemma isUpper_Char [code]:
  "isUpper (Char b0 b1 b2 b3 b4 b5 b6 b7) =
     (b6 \<and> \<not> b5 \<and>
      (if b7 then \<not> (b0 \<and> b1 \<and> b2 \<and> b4)
       else (b0 \<or> b1 \<or> b2 \<or> b3 \<or> b4) \<and> \<not> (b4 \<and> b3 \<and> (b2 \<or> b1 \<and> b0))))"
  by (cases b0; cases b1; cases b2; cases b3; cases b4; cases b5; cases b6; cases b7;
      simp add: isUpper_def code_def)

lemma lowerChar_Char [code]:
  "lowerChar (Char b0 b1 b2 b3 b4 b5 b6 b7) =
     (if isUpper (Char b0 b1 b2 b3 b4 b5 b6 b7) then Char b0 b1 b2 b3 b4 True b6 b7
      else Char b0 b1 b2 b3 b4 b5 b6 b7)"
proof -
  have "(of_char (lowerChar (Char b0 b1 b2 b3 b4 b5 b6 b7)) :: nat) =
        of_char (if isUpper (Char b0 b1 b2 b3 b4 b5 b6 b7) then Char b0 b1 b2 b3 b4 True b6 b7
                 else Char b0 b1 b2 b3 b4 b5 b6 b7)"
    by (cases b0; cases b1; cases b2; cases b3; cases b4; cases b5; cases b6; cases b7;
        simp add: lowerChar_def isUpper_def code_def)
  then show ?thesis
    by (simp only: of_char_eq_iff)
qed

text \<open>The bound of \<open>roundToDouble\<close> as a numeral, for evaluation.\<close>

lemma roundToDouble_numeral [code]:
  "roundToDouble q =
     (if 179769313486231580793728971405303415079934132710037826936173778980444968292764750946649017977587207096330286416692887910946555547851940402630657488671505820681908902000708383676273854845817711531764475730270069855571366959622842914819860834936475292719074168444365510704342711559699508093042880177904174497792
         \<le> q
      then Infinity else Num q)"
  by (simp add: roundToDouble_def)

section \<open>The incident store\<close>

lemma deleteIncident_stored:
  "stored (snd (deleteIncident now i a)) = filter (\<lambda>x. id_inc x \<noteq> i) (stored a)"
  by (simp add: deleteIncident_def stored_def setState_def newArray_def currentState_def Let_def)

lemma deleteIncident_lastUpdated:
  "lastUpdated (currentState (snd (deleteIncident now i a))) = now"
  by (simp add: deleteIncident_def setState_def newArray_def currentState_def Let_def)

lemma filter_absent_id:
  "i \<notin> id_inc ` set xs \<Longrightarrow> filter (\<lambda>x. id_inc x \<noteq> i) xs = xs"
  by (induction xs) auto

lemma stored_exampleAgent: "stored exampleAgent = [older, newer]"
  by (simp add: stored_def exampleAgent_def currentState_def)

lemma ids_example: "id_inc older = ''a1''" "id_inc newer = ''b2''"
  by (simp_all add: older_def newer_def exampleIncident_def)

text \<open>
  C8. For every agent and every id, \<open>deleteIncident\<close> answers with success and the id
  it was given. The records with that id are gone afterwards, the others stay in their
  order, \<open>lastUpdated\<close> is the time of the call, and without a record of that id the
  incidents are what they were.
\<close>

theorem deleteIncident_idempotent:
  "fst (deleteIncident now i a) = \<lparr>success = True, deletedId = i\<rparr> \<and>
   stored (snd (deleteIncident now i a)) = filter (\<lambda>x. id_inc x \<noteq> i) (stored a) \<and>
   i \<notin> id_inc ` set (stored (snd (deleteIncident now i a))) \<and>
   lastUpdated (currentState (snd (deleteIncident now i a))) = now \<and>
   (i \<notin> id_inc ` set (stored a) \<longrightarrow> stored (snd (deleteIncident now i a)) = stored a)"
proof -
  have res: "fst (deleteIncident now i a) = \<lparr>success = True, deletedId = i\<rparr>"
    by (simp add: deleteIncident_def Let_def split: prod.splits)
  have gone: "i \<notin> id_inc ` set (stored (snd (deleteIncident now i a)))"
    by (auto simp: deleteIncident_stored)
  have same: "i \<notin> id_inc ` set (stored a) \<longrightarrow> stored (snd (deleteIncident now i a)) = stored a"
    by (simp add: deleteIncident_stored filter_absent_id)
  from res gone same show ?thesis
    by (simp add: deleteIncident_stored deleteIncident_lastUpdated)
qed

theorem deleteIncident_idempotent_witness:
  "''zz'' \<notin> id_inc ` set (stored exampleAgent) \<and>
   fst (deleteIncident ''t'' ''zz'' exampleAgent) = \<lparr>success = True, deletedId = ''zz''\<rparr> \<and>
   stored (snd (deleteIncident ''t'' ''zz'' exampleAgent)) = [older, newer] \<and>
   stored (snd (deleteIncident ''t'' ''a1'' exampleAgent)) = [newer]"
  using deleteIncident_idempotent [of "''t''" "''zz''" exampleAgent]
    deleteIncident_idempotent [of "''t''" "''a1''" exampleAgent]
  by (simp add: stored_exampleAgent ids_example)

section \<open>The decision classifier\<close>

lemma code_less_256: "code c < 256"
  unfolding code_def using of_char_mod_256 [of c, where ?'a = nat]
  by (metis mod_less_divisor zero_less_numeral)

lemma code_char_of: "n < 256 \<Longrightarrow> code (char_of n) = n"
  by (simp add: code_def)

lemma code_eq_iff: "code a = code b \<longleftrightarrow> a = b"
  by (simp add: code_def)

lemma lowerChar_eq_plain:
  assumes "\<not> isUpper x"
  shows "lowerChar c = x \<longleftrightarrow> sameLetter c x"
proof (cases "isUpper c")
  case True
  then have small: "code c + 32 < 256"
    by (auto simp: isUpper_def)
  have "lowerChar c = x \<longleftrightarrow> code (char_of (code c + 32)) = code x"
    using True by (simp add: lowerChar_def code_eq_iff)
  also have "\<dots> \<longleftrightarrow> code x = code c + 32"
    using small by (auto simp: code_char_of)
  also have "\<dots> \<longleftrightarrow> sameLetter c x"
    using True assms by (auto simp: sameLetter_def)
  finally show ?thesis .
next
  case False
  then show ?thesis
    using assms by (auto simp: lowerChar_def sameLetter_def)
qed

lemma prefix_lower_ci:
  "\<forall>x\<in>set k. \<not> isUpper x \<Longrightarrow> prefix k (map lowerChar t) \<longleftrightarrow> ci_prefix k t"
proof (induction k t rule: ci_prefix.induct)
  case (1 t)
  then show ?case by simp
next
  case (2 x xs)
  then show ?case by simp
next
  case (3 x xs c cs)
  then have "x = lowerChar c \<longleftrightarrow> sameLetter c x"
    using lowerChar_eq_plain [of x c] by auto
  with 3 show ?case
    by simp
qed

lemma includes_lower_ci:
  "\<forall>x\<in>set k. \<not> isUpper x \<Longrightarrow> includes_str (toLowerCase t) k \<longleftrightarrow> ci_includes t k"
proof (induction t)
  case Nil
  then show ?case by (simp add: toLowerCase_def)
next
  case (Cons c cs)
  have "prefix k (map lowerChar (c # cs)) \<longleftrightarrow> ci_prefix k (c # cs)"
    using Cons.prems by (rule prefix_lower_ci)
  with Cons show ?case
    by (simp add: toLowerCase_def)
qed

lemma keywords_plain: "\<forall>k\<in>set decisionKeywords. \<forall>x\<in>set k. \<not> isUpper x"
  by code_simp

lemma keywords_nonempty: "\<forall>k\<in>set decisionKeywords. k \<noteq> []"
  by (simp add: decisionKeywords_def)

text \<open>
  C7. A question is a decision question exactly when it contains one of the seven
  keywords as a substring up to case. The empty question is none, and neither is the
  question of a turn without messages, without parts or without a text part.
\<close>

theorem isDecisionQuestion_keywords:
  "isDecisionQuestion q =
     (\<exists>k\<in>set [''rollback'', ''deploy'', ''hotfix'', ''launch'', ''release'', ''should we'', ''decision''].
        ci_includes q k) \<and>
   \<not> isDecisionQuestion [] \<and>
   (msgs = [] \<or> parts (last msgs) = None \<or> (\<exists>ps. parts (last msgs) = Some ps \<and> find isText ps = None)
      \<longrightarrow> \<not> isDecisionQuestion (userQuestionOf msgs))"
proof -
  have iff: "isDecisionQuestion t = (\<exists>k\<in>set decisionKeywords. ci_includes t k)" for t
    using keywords_plain by (auto simp: isDecisionQuestion_def list_ex_iff includes_lower_ci)
  have empty: "\<not> isDecisionQuestion []"
    using keywords_nonempty by (auto simp: iff)
  have missing: "userQuestionOf msgs = []"
    if "msgs = [] \<or> parts (last msgs) = None \<or> (\<exists>ps. parts (last msgs) = Some ps \<and> find isText ps = None)"
    using that by (auto simp: userQuestionOf_def)
  from iff [of q] empty missing show ?thesis
    by (auto simp: decisionKeywords_def)
qed

theorem isDecisionQuestion_keywords_witness:
  "isDecisionQuestion ''Should we launch?'' \<and>
   (\<exists>k\<in>set [''rollback'', ''deploy'', ''hotfix'', ''launch'', ''release'', ''should we'', ''decision''].
      ci_includes ''Should we launch?'' k) \<and>
   \<not> isDecisionQuestion ''What's the weather?'' \<and>
   \<not> (\<exists>k\<in>set [''rollback'', ''deploy'', ''hotfix'', ''launch'', ''release'', ''should we'', ''decision''].
        ci_includes ''What's the weather?'' k) \<and>
   find isText [OtherPart] = None \<and>
   \<not> isDecisionQuestion (userQuestionOf [\<lparr>parts = Some [OtherPart]\<rparr>])"
proof -
  have yes: "isDecisionQuestion ''Should we launch?''"
    by code_simp
  have no: "\<not> isDecisionQuestion ''What's the weather?''"
    by code_simp
  have none: "find isText [OtherPart] = None"
    by (simp add: isText_def)
  from yes have 1: "\<exists>k\<in>set [''rollback'', ''deploy'', ''hotfix'', ''launch'', ''release'', ''should we'', ''decision''].
      ci_includes ''Should we launch?'' k"
    using isDecisionQuestion_keywords [of "''Should we launch?''" "[]"] by blast
  from no have 2: "\<not> (\<exists>k\<in>set [''rollback'', ''deploy'', ''hotfix'', ''launch'', ''release'', ''should we'', ''decision''].
      ci_includes ''What's the weather?'' k)"
    using isDecisionQuestion_keywords [of "''What's the weather?''" "[]"] by blast
  from none have 3: "\<not> isDecisionQuestion (userQuestionOf [\<lparr>parts = Some [OtherPart]\<rparr>])"
    using isDecisionQuestion_keywords [of "[]" "[\<lparr>parts = Some [OtherPart]\<rparr>]"] by simp
  from yes no none 1 2 3 show ?thesis by blast
qed

section \<open>The turn\<close>

lemma awaitPerspective_fst:
  "fst (awaitPerspective e r q a) =
     (case getAgentByName e r of
        Inl err \<Rightarrow> unavailable r
      | Inr stub \<Rightarrow> (case getPerspective e r q of Inl err \<Rightarrow> unavailable r | Inr t \<Rightarrow> t))"
  by (simp add: awaitPerspective_def Let_def split: sum.splits)

lemma awaitPerspective_trace:
  "trace (snd (awaitPerspective e r q a)) =
     trace a @
     (case getAgentByName e r of
        Inl err \<Rightarrow> [LookedUp r (Inl err)]
      | Inr stub \<Rightarrow> [LookedUp r (Inr stub), Dispatched r q, Settled r (getPerspective e r q)])"
  by (simp add: awaitPerspective_def Let_def split: sum.splits)

lemma awaitPerspective_rest:
  "state (snd (awaitPerspective e r q a)) = state a"
  "initialState (snd (awaitPerspective e r q a)) = initialState a"
  "arrays (snd (awaitPerspective e r q a)) = arrays a"
  "free (snd (awaitPerspective e r q a)) = free a"
  by (simp_all add: awaitPerspective_def Let_def split: sum.splits)

text \<open>The perspectives that a turn collects.\<close>

lemma debate_decision:
  assumes "isDecisionQuestion (userQuestionOf msgs)"
  shows "fst (debate e msgs a) =
           Some (userQuestionOf msgs,
             \<lparr>reliability = fst (awaitPerspective e ReliabilityAgent (userQuestionOf msgs) a),
              cost = fst (awaitPerspective e CostAgent (userQuestionOf msgs) a),
              ux = fst (awaitPerspective e UXAgent (userQuestionOf msgs) a)\<rparr>)"
  using assms
  by (simp add: debate_def Let_def split_beta awaitPerspective_fst)

lemma debate_trace:
  assumes "isDecisionQuestion (userQuestionOf msgs)" and "fst (debate e msgs a) = Some (q, h)"
  shows "trace (snd (debate e msgs a)) =
           trace a @
           (case getAgentByName e ReliabilityAgent of
              Inl err \<Rightarrow> [LookedUp ReliabilityAgent (Inl err)]
            | Inr stub \<Rightarrow> [LookedUp ReliabilityAgent (Inr stub), Dispatched ReliabilityAgent q,
                           Settled ReliabilityAgent (getPerspective e ReliabilityAgent q)]) @
           (case getAgentByName e CostAgent of
              Inl err \<Rightarrow> [LookedUp CostAgent (Inl err)]
            | Inr stub \<Rightarrow> [LookedUp CostAgent (Inr stub), Dispatched CostAgent q,
                           Settled CostAgent (getPerspective e CostAgent q)]) @
           (case getAgentByName e UXAgent of
              Inl err \<Rightarrow> [LookedUp UXAgent (Inl err)]
            | Inr stub \<Rightarrow> [LookedUp UXAgent (Inr stub), Dispatched UXAgent q,
                           Settled UXAgent (getPerspective e UXAgent q)]) @
           [Streamed (synthesisContent q h)]"
  using assms
  by (auto simp: debate_def Let_def split_beta awaitPerspective_trace)

lemma onChatMessage_decision:
  assumes "fst (debate e msgs a) = Some (q, h)"
  shows "onChatMessage e msgs a = storeIncident e q h (snd (debate e msgs a))"
  using assms by (cases "debate e msgs a") (simp add: onChatMessage_def)

lemma onChatMessage_regular:
  assumes "\<not> isDecisionQuestion (userQuestionOf msgs)"
  shows "onChatMessage e msgs a = a\<lparr>trace := trace a @ [RegularChat]\<rparr>"
  using assms by (simp add: onChatMessage_def debate_def Let_def)

lemma debate_rest:
  "state (snd (debate e msgs a)) = state a"
  "initialState (snd (debate e msgs a)) = initialState a"
  "arrays (snd (debate e msgs a)) = arrays a"
  by (simp_all add: debate_def Let_def split_beta awaitPerspective_rest)

lemma stored_debate: "stored (snd (debate e msgs a)) = stored a"
  by (simp add: stored_def currentState_def debate_rest split: option.splits)

lemma storeIncident_done:
  assumes "synthesisText e (synthesisContent q h) = Inr text"
    and "extraction text = Inr (d, rs)"
    and "generateSummary e (newIncident e q h d rs) = Inr s"
  shows "storeIncident e q h a =
           setState ((currentState a)\<lparr>incidents := free a, lastUpdated := updatedAt e\<rparr>)
             (snd (newArray (stored a @ [(newIncident e q h d rs)\<lparr>summary := Some s\<rparr>]) a))"
  using assms by (simp add: storeIncident_def Let_def newArray_def stored_def)

lemma storeIncident_stored:
  assumes "synthesisText e (synthesisContent q h) = Inr text"
    and "extraction text = Inr (d, rs)"
    and "generateSummary e (newIncident e q h d rs) = Inr s"
  shows "stored (storeIncident e q h a) = stored a @ [(newIncident e q h d rs)\<lparr>summary := Some s\<rparr>]"
  by (simp add: storeIncident_done [OF assms] setState_def newArray_def stored_def currentState_def)

lemma storeIncident_trace:
  assumes "synthesisText e (synthesisContent q h) = Inr text"
    and "extraction text = Inr (d, rs)"
    and "generateSummary e (newIncident e q h d rs) = Inr s"
  shows "trace (storeIncident e q h a) =
           trace a @ [StateSet (stored a @ [(newIncident e q h d rs)\<lparr>summary := Some s\<rparr>]) (updatedAt e)]"
  by (simp add: storeIncident_done [OF assms] setState_def newArray_def)

lemma storeIncident_lastUpdated:
  assumes "synthesisText e (synthesisContent q h) = Inr text"
    and "extraction text = Inr (d, rs)"
    and "generateSummary e (newIncident e q h d rs) = Inr s"
  shows "lastUpdated (currentState (storeIncident e q h a)) = updatedAt e"
  by (simp add: storeIncident_done [OF assms] setState_def newArray_def currentState_def)

lemma storeIncident_summary_fails:
  assumes "synthesisText e (synthesisContent q h) = Inr text"
    and "extraction text = Inr (d, rs)"
    and "generateSummary e (newIncident e q h d rs) = Inl err"
  shows "storeIncident e q h a = a"
  using assms by (simp add: storeIncident_def Let_def)

text \<open>
  C1, as the code has it. When the synthesis text has arrived and its fields are
  extracted, the summary is requested for the record that is not stored yet. If the
  summary arrives, one state update appends the record with its summary set and sets
  \<open>lastUpdated\<close>; if the summary request throws, the agent is left as it was.
\<close>

theorem summary_set_before_append:
  assumes "synthesisText e (synthesisContent q h) = Inr text"
    and "extraction text = Inr (d, rs)"
  shows "(generateSummary e (newIncident e q h d rs) = Inr s \<longrightarrow>
            stored (storeIncident e q h a) = stored a @ [(newIncident e q h d rs)\<lparr>summary := Some s\<rparr>] \<and>
            trace (storeIncident e q h a) =
              trace a @ [StateSet (stored a @ [(newIncident e q h d rs)\<lparr>summary := Some s\<rparr>]) (updatedAt e)] \<and>
            lastUpdated (currentState (storeIncident e q h a)) = updatedAt e) \<and>
         (generateSummary e (newIncident e q h d rs) = Inl err \<longrightarrow> storeIncident e q h a = a)"
  using storeIncident_stored [OF assms] storeIncident_trace [OF assms]
    storeIncident_lastUpdated [OF assms] storeIncident_summary_fails [OF assms]
  by blast


lemma extraction_exampleBlock: "extraction exampleBlock = Inr (''Roll back.'', [''A'', ''B''])"
  by code_simp

text \<open>Both cases at the example: the summary arrives, and the summary request throws.\<close>

theorem summary_set_before_append_witness:
  "synthesisText exampleEnv
     (synthesisContent ''Should we launch?'' \<lparr>reliability = ''R'', cost = ''C'', ux = ''U''\<rparr>) = Inr exampleBlock \<and>
   extraction exampleBlock = Inr (''Roll back.'', [''A'', ''B'']) \<and>
   map summary (stored (storeIncident exampleEnv ''Should we launch?''
     \<lparr>reliability = ''R'', cost = ''C'', ux = ''U''\<rparr> exampleAgent)) =
     [Some ''Rolled back.'', Some ''Rolled back.'', Some ''Rolled back.''] \<and>
   storeIncident (exampleEnv\<lparr>summaryText := \<lambda>c. Inl Rejected\<rparr>) ''Should we launch?''
     \<lparr>reliability = ''R'', cost = ''C'', ux = ''U''\<rparr> exampleAgent = exampleAgent"
proof -
  let ?h = "\<lparr>reliability = ''R'', cost = ''C'', ux = ''U''\<rparr>"
  let ?e = "exampleEnv\<lparr>summaryText := \<lambda>c. Inl Rejected\<rparr>"
  have syn: "synthesisText exampleEnv (synthesisContent ''Should we launch?'' ?h) = Inr exampleBlock"
    by (simp add: exampleEnv_def)
  have syn': "synthesisText ?e (synthesisContent ''Should we launch?'' ?h) = Inr exampleBlock"
    by (simp add: exampleEnv_def)
  have ok: "generateSummary exampleEnv (newIncident exampleEnv ''Should we launch?'' ?h ''Roll back.'' [''A'', ''B''])
              = Inr ''Rolled back.''"
    by (simp add: generateSummary_def exampleEnv_def)
  have bad: "generateSummary ?e (newIncident ?e ''Should we launch?'' ?h ''Roll back.'' [''A'', ''B''])
              = Inl Rejected"
    by (simp add: generateSummary_def)
  have sums: "map summary (stored exampleAgent) = [Some ''Rolled back.'', Some ''Rolled back.'']"
    by (simp add: stored_exampleAgent older_def newer_def exampleIncident_def)
  from summary_set_before_append [OF syn extraction_exampleBlock, where s = "''Rolled back.''" and a = exampleAgent] ok sums
  have 1: "map summary (stored (storeIncident exampleEnv ''Should we launch?'' ?h exampleAgent)) =
     [Some ''Rolled back.'', Some ''Rolled back.'', Some ''Rolled back.'']"
    by simp
  from summary_set_before_append [OF syn' extraction_exampleBlock, where err = Rejected and a = exampleAgent] bad
  have 2: "storeIncident ?e ''Should we launch?'' ?h exampleAgent = exampleAgent"
    by blast
  from syn extraction_exampleBlock 1 2 show ?thesis
    by blast
qed

text \<open>
  C1, as the specification words it, fails: at the example turn the record \<open>c3\<close> is
  stored with its summary, and no state update ever held it without one.
\<close>

theorem record_never_stored_without_summary:
  "isDecisionQuestion (userQuestionOf exampleMessages) \<and>
   map id_inc (stored (onChatMessage exampleEnv exampleMessages exampleAgent)) = [''a1'', ''b2'', ''c3''] \<and>
   map summary (stored (onChatMessage exampleEnv exampleMessages exampleAgent)) =
     [Some ''Rolled back.'', Some ''Rolled back.'', Some ''Rolled back.''] \<and>
   \<not> storedWithoutSummary ''c3'' (trace (onChatMessage exampleEnv exampleMessages exampleAgent))"
  by code_simp




text \<open>
  C6. In a turn for a decision question in which one role fails, at the lookup of its
  agent or at the call, and the two others answer, the perspectives are the two
  answers and the fixed sentence that names the failed role; the turn ends with the
  stream of the synthesis request made from them, and the incident that the turn
  stores has them as its hypotheses.
\<close>

theorem one_failure_is_substituted:
  assumes "isDecisionQuestion q" and "q = userQuestionOf msgs"
    and "getAgentByName e failed = Inl err \<or> getPerspective e failed q = Inl err"
    and "\<forall>r. r \<noteq> failed \<longrightarrow> getAgentByName e r = Inr () \<and> getPerspective e r q = Inr (txt r)"
  shows
    "(let h = \<lparr>reliability = (if failed = ReliabilityAgent then ''Reliability Agent unavailable.''
                               else txt ReliabilityAgent),
                cost = (if failed = CostAgent then ''Cost Agent unavailable.'' else txt CostAgent),
                ux = (if failed = UXAgent then ''UX / User Impact Agent unavailable.'' else txt UXAgent)\<rparr>
      in fst (debate e msgs a) = Some (q, h) \<and>
         last (trace (snd (debate e msgs a))) = Streamed (synthesisContent q h) \<and>
         (\<forall>text d rs s.
            synthesisText e (synthesisContent q h) = Inr text \<and> extraction text = Inr (d, rs) \<and>
            generateSummary e (newIncident e q h d rs) = Inr s \<longrightarrow>
            hypotheses (last (stored (onChatMessage e msgs a))) = h))"
proof -
  define h where "h = \<lparr>reliability = (if failed = ReliabilityAgent then ''Reliability Agent unavailable.''
                               else txt ReliabilityAgent),
                cost = (if failed = CostAgent then ''Cost Agent unavailable.'' else txt CostAgent),
                ux = (if failed = UXAgent then ''UX / User Impact Agent unavailable.'' else txt UXAgent)\<rparr>"
  have dq: "isDecisionQuestion (userQuestionOf msgs)"
    using assms(1,2) by simp
  have each: "fst (awaitPerspective e r q a) = (if failed = r then unavailable r else txt r)" for r
  proof (cases "r = failed")
    case True
    with assms(3) show ?thesis
      by (auto simp: awaitPerspective_fst split: sum.splits)
  next
    case False
    with assms(4) show ?thesis
      by (auto simp: awaitPerspective_fst)
  qed
  have "fst (debate e msgs a) =
           Some (q, \<lparr>reliability = fst (awaitPerspective e ReliabilityAgent q a),
                     cost = fst (awaitPerspective e CostAgent q a),
                     ux = fst (awaitPerspective e UXAgent q a)\<rparr>)"
    using debate_decision [OF dq, of e a] by (simp only: assms(2) [symmetric])
  then have deb: "fst (debate e msgs a) = Some (q, h)"
    by (simp add: each h_def unavailable_def)
  have tr: "last (trace (snd (debate e msgs a))) = Streamed (synthesisContent q h)"
    using debate_trace [OF dq deb] by simp
  have st: "hypotheses (last (stored (onChatMessage e msgs a))) = h"
    if "synthesisText e (synthesisContent q h) = Inr t" "extraction t = Inr (d, rs)"
       "generateSummary e (newIncident e q h d rs) = Inr s" for t d rs s
    using storeIncident_stored [OF that] by (simp add: onChatMessage_decision [OF deb] newIncident_def)
  from deb tr st show ?thesis
    unfolding h_def Let_def by blast
qed

text \<open>
  The example turn, in which the call of the cost agent fails, and the same turn when
  instead the lookup of the cost agent fails.
\<close>

theorem one_failure_is_substituted_witness:
  "isDecisionQuestion ''Should we launch?'' \<and>
   getPerspective exampleEnv CostAgent ''Should we launch?'' = Inl Rejected \<and>
   fst (debate exampleEnv exampleMessages exampleAgent) =
     Some (''Should we launch?'',
           \<lparr>reliability = ''Roll back now.'', cost = ''Cost Agent unavailable.'', ux = ''Users are hurting.''\<rparr>) \<and>
   hypotheses (last (stored (onChatMessage exampleEnv exampleMessages exampleAgent))) =
     \<lparr>reliability = ''Roll back now.'', cost = ''Cost Agent unavailable.'', ux = ''Users are hurting.''\<rparr> \<and>
   fst (debate (exampleEnv\<lparr>getAgentByName := \<lambda>r. if r = CostAgent then Inl Rejected else Inr ()\<rparr>)
          exampleMessages exampleAgent) =
     Some (''Should we launch?'',
           \<lparr>reliability = ''Roll back now.'', cost = ''Cost Agent unavailable.'', ux = ''Users are hurting.''\<rparr>)"
proof -
  let ?txt = "\<lambda>r. case r of ReliabilityAgent \<Rightarrow> ''Roll back now.'' | CostAgent \<Rightarrow> [] | UXAgent \<Rightarrow> ''Users are hurting.''"
  let ?h = "\<lparr>reliability = ''Roll back now.'', cost = ''Cost Agent unavailable.'', ux = ''Users are hurting.''\<rparr>"
  let ?e = "exampleEnv\<lparr>getAgentByName := \<lambda>r. if r = CostAgent then Inl Rejected else Inr ()\<rparr>"
  have dq: "isDecisionQuestion ''Should we launch?''"
    by code_simp
  have uq: "''Should we launch?'' = userQuestionOf exampleMessages"
    by (simp add: userQuestionOf_def exampleMessages_def isText_def)
  have fails: "getPerspective exampleEnv CostAgent ''Should we launch?'' = Inl Rejected"
    by (simp add: exampleEnv_def)
  have fails1: "getAgentByName exampleEnv CostAgent = Inl Rejected \<or>
                getPerspective exampleEnv CostAgent ''Should we launch?'' = Inl Rejected"
    using fails by simp
  have fails2: "getAgentByName ?e CostAgent = Inl Rejected \<or>
                getPerspective ?e CostAgent ''Should we launch?'' = Inl Rejected"
    by simp
  have others1: "\<forall>r. r \<noteq> CostAgent \<longrightarrow> getAgentByName exampleEnv r = Inr () \<and>
                   getPerspective exampleEnv r ''Should we launch?'' = Inr (?txt r)"
    by (simp add: exampleEnv_def split: role.splits)
  have others2: "\<forall>r. r \<noteq> CostAgent \<longrightarrow> getAgentByName ?e r = Inr () \<and>
                   getPerspective ?e r ''Should we launch?'' = Inr (?txt r)"
    by (simp add: exampleEnv_def split: role.splits)
  have syn: "synthesisText exampleEnv (synthesisContent ''Should we launch?'' ?h) = Inr exampleBlock"
    by (simp add: exampleEnv_def)
  have sm: "generateSummary exampleEnv (newIncident exampleEnv ''Should we launch?'' ?h ''Roll back.'' [''A'', ''B''])
              = Inr ''Rolled back.''"
    by (simp add: generateSummary_def exampleEnv_def)
  from one_failure_is_substituted [OF dq uq fails1 others1, where a = exampleAgent]
    syn extraction_exampleBlock sm
  have 1: "fst (debate exampleEnv exampleMessages exampleAgent) = Some (''Should we launch?'', ?h) \<and>
        hypotheses (last (stored (onChatMessage exampleEnv exampleMessages exampleAgent))) = ?h"
    by (simp add: Let_def)
  from one_failure_is_substituted [OF dq uq fails2 others2, where a = exampleAgent]
  have 2: "fst (debate ?e exampleMessages exampleAgent) = Some (''Should we launch?'', ?h)"
    by (simp add: Let_def)
  from dq fails 1 2 show ?thesis
    by blast
qed

text \<open>
  C9, as the specification words it, fails: in the example turn a call is sent after
  another call has settled.
\<close>

theorem dispatch_is_not_concurrent:
  "isDecisionQuestion (userQuestionOf exampleMessages) \<and>
   \<not> dispatchedConcurrently (trace (snd (debate exampleEnv exampleMessages exampleAgent)))"
  by code_simp

text \<open>
  C9, as the code has it. In every turn for a decision question the three roles are
  taken one after the other, reliability, cost, UX. For each role the agent is looked
  up first; a role whose lookup throws gets no call; otherwise the call is sent and
  awaited. The lookup of the next role follows only when the lookup before has failed
  or the call before has settled, and the synthesis request follows the third role. So
  whenever the lookups of two roles succeed, a call is sent after another call has
  settled.
\<close>

theorem dispatch_is_sequential:
  assumes "isDecisionQuestion q" and "q = userQuestionOf msgs"
  shows "\<exists>h. fst (debate e msgs a) = Some (q, h) \<and>
           trace (snd (debate e msgs a)) =
             trace a @
             (case getAgentByName e ReliabilityAgent of
                Inl err \<Rightarrow> [LookedUp ReliabilityAgent (Inl err)]
              | Inr stub \<Rightarrow> [LookedUp ReliabilityAgent (Inr stub), Dispatched ReliabilityAgent q,
                             Settled ReliabilityAgent (getPerspective e ReliabilityAgent q)]) @
             (case getAgentByName e CostAgent of
                Inl err \<Rightarrow> [LookedUp CostAgent (Inl err)]
              | Inr stub \<Rightarrow> [LookedUp CostAgent (Inr stub), Dispatched CostAgent q,
                             Settled CostAgent (getPerspective e CostAgent q)]) @
             (case getAgentByName e UXAgent of
                Inl err \<Rightarrow> [LookedUp UXAgent (Inl err)]
              | Inr stub \<Rightarrow> [LookedUp UXAgent (Inr stub), Dispatched UXAgent q,
                             Settled UXAgent (getPerspective e UXAgent q)]) @
             [Streamed (synthesisContent q h)] \<and>
           ((\<exists>r1 r2. r1 \<noteq> r2 \<and> getAgentByName e r1 = Inr () \<and> getAgentByName e r2 = Inr ()) \<longrightarrow>
              \<not> dispatchedConcurrently (drop (length (trace a)) (trace (snd (debate e msgs a)))))"
proof -
  have dq: "isDecisionQuestion (userQuestionOf msgs)"
    using assms by simp
  obtain h where deb: "fst (debate e msgs a) = Some (q, h)"
    using debate_decision [OF dq, of e a] assms(2) by simp
  note tr = debate_trace [OF dq deb]
  have seq: "\<not> dispatchedConcurrently (drop (length (trace a)) (trace (snd (debate e msgs a))))"
    if two: "r1 \<noteq> r2" "getAgentByName e r1 = Inr ()" "getAgentByName e r2 = Inr ()" for r1 r2
  proof -
    from two have "(getAgentByName e ReliabilityAgent = Inr () \<and> getAgentByName e CostAgent = Inr ()) \<or>
                   (getAgentByName e ReliabilityAgent = Inr () \<and> getAgentByName e UXAgent = Inr ()) \<or>
                   (getAgentByName e CostAgent = Inr () \<and> getAgentByName e UXAgent = Inr ())"
      by (cases r1; cases r2) auto
    then show ?thesis
      unfolding tr
      by (auto simp: dispatchedConcurrently_def isSettled_def isDispatched_def split: sum.splits)
  qed
  from deb tr seq show ?thesis
    by blast
qed

text \<open>
  The example turn, with its three calls, and the same turn when the lookup of the cost
  agent fails: then two calls are sent, the second after the first has settled.
\<close>

theorem dispatch_is_sequential_witness:
  "isDecisionQuestion ''Should we launch?'' \<and>
   ''Should we launch?'' = userQuestionOf exampleMessages \<and>
   take 9 (trace (snd (debate exampleEnv exampleMessages exampleAgent))) =
     [LookedUp ReliabilityAgent (Inr ()),
      Dispatched ReliabilityAgent ''Should we launch?'', Settled ReliabilityAgent (Inr ''Roll back now.''),
      LookedUp CostAgent (Inr ()),
      Dispatched CostAgent ''Should we launch?'', Settled CostAgent (Inl Rejected),
      LookedUp UXAgent (Inr ()),
      Dispatched UXAgent ''Should we launch?'', Settled UXAgent (Inr ''Users are hurting.'')] \<and>
   take 7 (trace (snd (debate (exampleEnv\<lparr>getAgentByName := \<lambda>r. if r = CostAgent then Inl Rejected else Inr ()\<rparr>)
                         exampleMessages exampleAgent))) =
     [LookedUp ReliabilityAgent (Inr ()),
      Dispatched ReliabilityAgent ''Should we launch?'', Settled ReliabilityAgent (Inr ''Roll back now.''),
      LookedUp CostAgent (Inl Rejected),
      LookedUp UXAgent (Inr ()),
      Dispatched UXAgent ''Should we launch?'', Settled UXAgent (Inr ''Users are hurting.'')] \<and>
   \<not> dispatchedConcurrently
       (trace (snd (debate (exampleEnv\<lparr>getAgentByName := \<lambda>r. if r = CostAgent then Inl Rejected else Inr ()\<rparr>)
                      exampleMessages exampleAgent)))"
proof -
  let ?e = "exampleEnv\<lparr>getAgentByName := \<lambda>r. if r = CostAgent then Inl Rejected else Inr ()\<rparr>"
  have dq: "isDecisionQuestion ''Should we launch?''"
    by code_simp
  have uq: "''Should we launch?'' = userQuestionOf exampleMessages"
    by (simp add: userQuestionOf_def exampleMessages_def isText_def)
  have tr: "trace exampleAgent = []"
    by (simp add: exampleAgent_def)
  have gp: "getPerspective exampleEnv ReliabilityAgent ''Should we launch?'' = Inr ''Roll back now.''"
    "getPerspective exampleEnv CostAgent ''Should we launch?'' = Inl Rejected"
    "getPerspective exampleEnv UXAgent ''Should we launch?'' = Inr ''Users are hurting.''"
    "getAgentByName exampleEnv = (\<lambda>r. Inr ())"
    by (simp_all add: exampleEnv_def)
  have two: "\<exists>r1 r2. r1 \<noteq> r2 \<and> getAgentByName ?e r1 = Inr () \<and> getAgentByName ?e r2 = Inr ()"
    by (rule exI [of _ ReliabilityAgent], rule exI [of _ UXAgent]) simp
  from dispatch_is_sequential [OF dq uq, of exampleEnv exampleAgent]
  have 1: "take 9 (trace (snd (debate exampleEnv exampleMessages exampleAgent))) =
     [LookedUp ReliabilityAgent (Inr ()),
      Dispatched ReliabilityAgent ''Should we launch?'', Settled ReliabilityAgent (Inr ''Roll back now.''),
      LookedUp CostAgent (Inr ()),
      Dispatched CostAgent ''Should we launch?'', Settled CostAgent (Inl Rejected),
      LookedUp UXAgent (Inr ()),
      Dispatched UXAgent ''Should we launch?'', Settled UXAgent (Inr ''Users are hurting.'')]"
    by (auto simp: tr gp)
  from dispatch_is_sequential [OF dq uq, of ?e exampleAgent] two
  have 2: "take 7 (trace (snd (debate ?e exampleMessages exampleAgent))) =
     [LookedUp ReliabilityAgent (Inr ()),
      Dispatched ReliabilityAgent ''Should we launch?'', Settled ReliabilityAgent (Inr ''Roll back now.''),
      LookedUp CostAgent (Inl Rejected),
      LookedUp UXAgent (Inr ()),
      Dispatched UXAgent ''Should we launch?'', Settled UXAgent (Inr ''Users are hurting.'')] \<and>
     \<not> dispatchedConcurrently (trace (snd (debate ?e exampleMessages exampleAgent)))"
    by (auto simp: tr gp)
  from dq uq 1 2 show ?thesis
    by blast
qed

section \<open>Search\<close>

text \<open>
  Without a query the array that is sorted is the array of the state. With a query
  the filter has made a new array, and the state keeps its order.
\<close>

lemma getIncidents_no_query:
  assumes "searchQuery = None \<or> searchQuery = Some []"
  shows "stored (snd (getIncidents getTime searchQuery a)) = sortNewestFirst getTime (stored a)"
    and "state (snd (getIncidents getTime searchQuery a)) = state a"
    and "trace (snd (getIncidents getTime searchQuery a)) = trace a"
  using assms
  by (auto simp: getIncidents_def sortInPlace_def stored_def currentState_def Let_def
      split: option.splits)

lemma getIncidents_query:
  assumes "q \<noteq> []" and "incidents (currentState a) < free a"
  shows "stored (snd (getIncidents getTime (Some q) a)) = stored a"
    and "state (snd (getIncidents getTime (Some q) a)) = state a"
  using assms
  by (auto simp: getIncidents_def sortInPlace_def newArray_def stored_def currentState_def Let_def
      split: option.splits)

lemma sort_example: "sortNewestFirst exampleTime [older, newer] = [newer, older]"
  by (simp add: sortNewestFirst_def older_def newer_def exampleIncident_def exampleTime_def)

text \<open>
  C3 at the example agent, which holds the older incident before the newer one: after
  \<open>getIncidents\<close> without a query, or with the empty query, the agent holds the
  newer one first, while \<open>state\<close> (so \<open>lastUpdated\<close>) and the events are
  what they were. With the query \<open>roll\<close> the stored order is kept.
\<close>

theorem getIncidents_reorders_stored:
  "stored exampleAgent = [older, newer] \<and>
   stored (snd (getIncidents exampleTime None exampleAgent)) = [newer, older] \<and>
   stored (snd (getIncidents exampleTime (Some []) exampleAgent)) = [newer, older] \<and>
   state (snd (getIncidents exampleTime None exampleAgent)) = state exampleAgent \<and>
   trace (snd (getIncidents exampleTime None exampleAgent)) = trace exampleAgent \<and>
   stored (snd (getIncidents exampleTime (Some ''roll'') exampleAgent)) = [older, newer]"
proof -
  have alloc: "incidents (currentState exampleAgent) < free exampleAgent"
    by (simp add: currentState_def exampleAgent_def)
  show ?thesis
    using getIncidents_no_query [of None exampleTime exampleAgent]
      getIncidents_no_query [of "Some []" exampleTime exampleAgent]
      getIncidents_query [of "''roll''" exampleAgent exampleTime, OF _ alloc]
    by (simp add: stored_exampleAgent sort_example)
qed

section \<open>Matching\<close>

text \<open>The equations of \<open>ms\<close> are unfolded by name, one step at a time.\<close>

declare ms.simps [simp del]

lemma lowerChar_eq_iff: "lowerChar a = lowerChar b \<longleftrightarrow> sameLetter a b"
proof (cases "isUpper b")
  case False
  then have "lowerChar a = b \<longleftrightarrow> sameLetter a b"
    by (rule lowerChar_eq_plain)
  with False show ?thesis
    by (simp add: lowerChar_def)
next
  case b: True
  show ?thesis
  proof (cases "isUpper a")
    case False
    then have "lowerChar b = a \<longleftrightarrow> sameLetter b a"
      by (rule lowerChar_eq_plain)
    moreover have "sameLetter b a = sameLetter a b"
      by (auto simp: sameLetter_def)
    moreover have "lowerChar a = a"
      using False by (simp add: lowerChar_def)
    ultimately show ?thesis
      by auto
  next
    case a: True
    have small: "code a + 32 < 256" "code b + 32 < 256"
      using a b by (auto simp: isUpper_def)
    have "lowerChar a = lowerChar b \<longleftrightarrow> code (char_of (code a + 32)) = code (char_of (code b + 32))"
      using a b by (simp add: lowerChar_def code_eq_iff)
    also have "\<dots> \<longleftrightarrow> a = b"
      using small by (simp add: code_char_of code_eq_iff)
    also have "\<dots> \<longleftrightarrow> sameLetter a b"
      using a b by (auto simp: sameLetter_def isUpper_def)
    finally show ?thesis .
  qed
qed

lemma lit_Nil: "lit [] = Eps"
  by (simp add: lit_def)

lemma lit_Cons: "lit (x # xs) = Seq (Chr (\<lambda>c. lowerChar c = lowerChar x)) (lit xs)"
  by (simp add: lit_def)

lemma ms_lit: "ms (lit w) s c = (if ci_prefix w s then [(drop (length w) s, c)] else [])"
proof (induction w s rule: ci_prefix.induct)
  case (1 t)
  then show ?case by (simp add: lit_Nil ms.simps(1))
next
  case (2 x xs)
  then show ?case by (simp add: lit_Cons ms.simps(2,3))
next
  case (3 x xs c' cs)
  then show ?case
    by (simp add: lit_Cons lowerChar_eq_iff ms.simps(2,3))
qed

lemma ms_lit_Seq:
  "ms (Seq (lit w) r) s c = (if ci_prefix w s then ms r (drop (length w) s) c else [])"
  by (simp add: ms_lit ms.simps(3))

lemma match_None_iff: "match r t = None \<longleftrightarrow> (\<forall>s. suffix s t \<longrightarrow> ms r s None = [])"
proof (induction t)
  case Nil
  then show ?case by (simp split: list.splits)
next
  case (Cons x xs)
  then show ?case
    by (simp add: suffix_Cons split: list.splits) blast
qed

lemma ci_includes_iff: "ci_includes t k \<longleftrightarrow> (\<exists>s. suffix s t \<and> ci_prefix k s)"
proof (induction t)
  case Nil
  then show ?case by (cases k) auto
next
  case (Cons x xs)
  then show ?case
    by (simp add: suffix_Cons) blast
qed


text \<open>A capture that is set stays set.\<close>

lemma in_ms_Seq:
  "(s', c') \<in> set (ms (Seq r1 r2) s c) \<longleftrightarrow>
     (\<exists>s1 c1. (s1, c1) \<in> set (ms r1 s c) \<and> (s', c') \<in> set (ms r2 s1 c1))"
  by (auto simp: ms.simps(3))

lemma in_ms_Rep:
  "(s', c') \<in> set (ms (Rep g r) s c) \<longleftrightarrow>
     (s', c') = (s, c) \<or>
     (\<exists>s1 c1. (s1, c1) \<in> set (ms r s c) \<and> length s1 < length s \<and> (s', c') \<in> set (ms (Rep g r) s1 c1))"
  by (subst ms.simps(5)) (auto simp: Let_def split: if_splits)

lemma ms_keeps_capture: "(s', c') \<in> set (ms r s c) \<Longrightarrow> c \<noteq> None \<Longrightarrow> c' \<noteq> None"
proof (induction r s c arbitrary: s' c' rule: ms.induct)
  case (1 s c)
  then show ?case by (simp add: ms.simps(1))
next
  case (2 p s c)
  then show ?case by (auto simp: ms.simps(2) split: list.splits if_splits)
next
  case (3 r1 r2 s c)
  from "3.prems"(1) obtain s1 c1 where a: "(s1, c1) \<in> set (ms r1 s c)"
    and b: "(s', c') \<in> set (ms r2 s1 c1)"
    unfolding in_ms_Seq by blast
  from "3.IH"(1) [OF a "3.prems"(2)] have "c1 \<noteq> None" .
  with "3.IH"(2) [OF a refl b] show ?case by simp
next
  case (4 r1 r2 s c)
  then show ?case by (auto simp: ms.simps(4))
next
  case (5 g r s c)
  from "5.prems"(1) consider "(s', c') = (s, c)"
    | s1 c1 where "(s1, c1) \<in> set (ms r s c)" "length s1 < length s" "(s', c') \<in> set (ms (Rep g r) s1 c1)"
    unfolding in_ms_Rep [of s' c' g r s c] by blast
  then show ?case
  proof cases
    case 1
    with "5.prems"(2) show ?thesis by simp
  next
    case 2
    from "5.IH"(1) [OF 2(1) "5.prems"(2)] have "c1 \<noteq> None" .
    with "5.IH"(2) [OF 2(1) refl 2(2) 2(3)] show ?thesis by simp
  qed
next
  case (6 r s c)
  then show ?case by (auto simp: ms.simps(6))
next
  case (7 s c)
  then show ?case by (auto simp: ms.simps(7) split: if_splits)
qed

lemma ms_Grp_sets: "(s', c') \<in> set (ms (Grp r) s c) \<Longrightarrow> c' \<noteq> None"
  by (auto simp: ms.simps(6))

lemma ms_Seq_Grp_sets:
  assumes "(s', c') \<in> set (ms (Seq (Grp r) r2) s c)"
  shows "c' \<noteq> None"
proof -
  from assms obtain s1 c1 where a: "(s1, c1) \<in> set (ms (Grp r) s c)"
    and b: "(s', c') \<in> set (ms r2 s1 c1)"
    unfolding in_ms_Seq by blast
  from ms_Grp_sets [OF a] ms_keeps_capture [OF b] show ?thesis
    by blast
qed

lemma ms_Seq_sets:
  assumes "\<And>s c s' c'. (s', c') \<in> set (ms r2 s c) \<Longrightarrow> c' \<noteq> None"
    and "(s', c') \<in> set (ms (Seq r1 r2) s c)"
  shows "c' \<noteq> None"
  using assms unfolding in_ms_Seq by blast

text \<open>A match of a pattern all of whose matches set the capture has its group.\<close>

lemma match_sets:
  assumes "\<And>s c s' c'. (s', c') \<in> set (ms r s c) \<Longrightarrow> c' \<noteq> None"
  shows "match r t \<noteq> Some None"
proof (induction t)
  case Nil
  show ?case
  proof (cases "ms r [] None")
    case Nil
    then show ?thesis by simp
  next
    case (Cons x xs)
    then have "x \<in> set (ms r [] None)" by simp
    with assms [of "fst x" "snd x" "[]" None] Cons show ?thesis
      by (cases x) auto
  qed
next
  case (Cons y ys)
  show ?case
  proof (cases "ms r (y # ys) None")
    case Nil
    with Cons.IH show ?thesis by simp
  next
    case (Cons x xs)
    then have "x \<in> set (ms r (y # ys) None)" by simp
    with assms [of "fst x" "snd x" "y # ys" None] Cons show ?thesis
      by (cases x) auto
  qed
qed

lemma decisionRx_sets: "match decisionRx t \<noteq> Some None"
  unfolding decisionRx_def
  by (rule match_sets, erule ms_Seq_sets [rotated], erule ms_Seq_sets [rotated],
      erule ms_Seq_Grp_sets)

lemma whyRx_sets: "match whyRx t \<noteq> Some None"
  unfolding whyRx_def
  by (rule match_sets, erule ms_Seq_sets [rotated], erule ms_Seq_sets [rotated],
      erule ms_Seq_sets [rotated], erule ms_Seq_Grp_sets)

lemma errorRateRx_sets: "match errorRateRx t \<noteq> Some None"
  unfolding errorRateRx_def
  by (rule match_sets, erule ms_Seq_sets [rotated], erule ms_Seq_sets [rotated],
      erule ms_Grp_sets)

lemma latencyRx_sets: "match latencyRx t \<noteq> Some None"
  unfolding latencyRx_def
  by (rule match_sets, erule ms_Seq_sets [rotated], erule ms_Seq_sets [rotated],
      erule ms_Grp_sets)


lemma ci_prefix_append:
  "ci_prefix (u @ v) s \<longleftrightarrow> ci_prefix u s \<and> ci_prefix v (drop (length u) s)"
proof (induction u s rule: ci_prefix.induct)
  case (1 t)
  show ?case by simp
next
  case (2 x xs)
  show ?case by simp
next
  case (3 x xs c cs)
  then show ?case by auto
qed

lemma ci_includes_part:
  assumes "ci_includes t (u @ v @ w)"
  shows "ci_includes t v"
proof -
  from assms obtain s where s: "suffix s t" "ci_prefix (u @ v @ w) s"
    unfolding ci_includes_iff by blast
  then have "ci_prefix v (drop (length u) s)"
    by (simp add: ci_prefix_append)
  moreover have "suffix (drop (length u) s) t"
    using s(1) suffix_drop suffix_order.trans by blast
  ultimately show ?thesis
    unfolding ci_includes_iff by blast
qed

text \<open>A pattern that starts with a literal matches only where the literal occurs.\<close>

lemma match_lit_includes:
  assumes "match (Seq (lit w) r) t \<noteq> None"
  shows "ci_includes t w"
proof -
  from assms obtain s where "suffix s t" "ms (Seq (lit w) r) s None \<noteq> []"
    unfolding match_None_iff by blast
  then show ?thesis
    unfolding ci_includes_iff by (auto simp: ms_lit_Seq split: if_splits)
qed

lemma ms_Alt_lit_Seq:
  assumes "ms (Seq (Alt (lit u) (lit v)) r) s c \<noteq> []"
  shows "ci_prefix u s \<or> ci_prefix v s"
proof (rule ccontr)
  assume "\<not> (ci_prefix u s \<or> ci_prefix v s)"
  then have "ms (Alt (lit u) (lit v)) s c = []"
    by (simp add: ms.simps(4) ms_lit)
  then have "ms (Seq (Alt (lit u) (lit v)) r) s c = []"
    by (simp add: ms.simps(3))
  with assms show False by simp
qed

lemma match_Alt_lit_includes:
  assumes "match (Seq (Alt (lit u) (lit v)) r) t \<noteq> None"
  shows "ci_includes t u \<or> ci_includes t v"
proof -
  from assms obtain s where "suffix s t" "ms (Seq (Alt (lit u) (lit v)) r) s None \<noteq> []"
    unfolding match_None_iff by blast
  with ms_Alt_lit_Seq show ?thesis
    unfolding ci_includes_iff by blast
qed

text \<open>The search passes over a prefix in which the literal does not begin.\<close>

lemma match_skips:
  "\<not> beginsWithin w p rest \<Longrightarrow> match (Seq (lit w) r) (p @ rest) = match (Seq (lit w) r) rest"
proof (induction p)
  case Nil
  then show ?case by simp
next
  case (Cons x p)
  then have "ms (Seq (lit w) r) (x # p @ rest) None = []"
    by (simp add: ms_lit_Seq)
  with Cons show ?case
    by simp
qed

section \<open>Splitting at hyphens\<close>

lemma splitHyphen_append:
  "splitHyphen acc (u @ CHR ''-'' # v) = splitHyphen acc u @ splitHyphen [] v"
  by (induction u arbitrary: acc) auto

lemma splitHyphen_plain:
  "CHR ''-'' \<notin> set u \<Longrightarrow> splitHyphen acc u = [rev acc @ u]"
  by (induction u arbitrary: acc) auto

lemma splitHyphen_pieces:
  "CHR ''-'' \<notin> set acc \<Longrightarrow> \<forall>r\<in>set (splitHyphen acc s). CHR ''-'' \<notin> set r"
proof (induction s arbitrary: acc)
  case Nil
  then show ?case by simp
next
  case (Cons x s)
  show ?case
  proof (cases "x = CHR ''-''")
    case True
    with Cons.IH [of "[]"] Cons.prems show ?thesis by simp
  next
    case False
    with Cons.IH [of "x # acc"] Cons.prems show ?thesis by simp
  qed
qed

lemma set_trim: "set (trim s) \<subseteq> set s"
proof -
  have "set (trim s) \<subseteq> set (rev (dropWhile isSpace s))"
    unfolding trim_def by (metis set_dropWhileD set_rev subsetI)
  also have "\<dots> \<subseteq> set s"
    by (auto dest: set_dropWhileD)
  finally show ?thesis .
qed


lemma sameLetter_code [code]: "sameLetter a b \<longleftrightarrow> lowerChar a = lowerChar b"
  by (simp add: lowerChar_eq_iff)

section \<open>Extraction\<close>

lemma extractDecision_total: "\<exists>d. extractDecision t = Inr d"
  using decisionRx_sets [of t]
  by (auto simp: extractDecision_def split: option.splits)

lemma extractReasoning_total: "\<exists>rs. extractReasoning t = Inr rs"
  using whyRx_sets [of t]
  by (auto simp: extractReasoning_def split: option.splits)

lemma no_marker_no_decision:
  assumes "\<not> ci_includes t ''Final Recommendation''"
  shows "match decisionRx t = None"
proof (rule ccontr)
  assume "match decisionRx t \<noteq> None"
  then have "ci_includes t (''**'' @ ''Final Recommendation'' @ '':**'')"
    unfolding decisionRx_def using match_lit_includes by simp
  then have "ci_includes t ''Final Recommendation''"
    by (rule ci_includes_part)
  with assms show False by simp
qed

lemma no_marker_no_reasoning:
  assumes "\<not> ci_includes t ''Why''"
  shows "match whyRx t = None"
proof (rule ccontr)
  assume "match whyRx t \<noteq> None"
  then have "ci_includes t (''**'' @ ''Why'' @ [])"
    unfolding whyRx_def using match_lit_includes by simp
  then have "ci_includes t ''Why''"
    by (rule ci_includes_part)
  with assms show False by simp
qed

text \<open>
  C5. A synthesis text that does not contain \<open>Final Recommendation\<close> (up to case)
  gets the fixed decision, a text that does not contain \<open>Why\<close> (up to case) gets the
  list with the one fixed reasoning entry, and for every text the extraction returns
  both fields: no step of it throws.
\<close>

theorem extraction_falls_back:
  "(\<not> ci_includes text ''Final Recommendation'' \<longrightarrow>
      extractDecision text = Inr ''No clear decision reached'') \<and>
   (\<not> ci_includes text ''Why'' \<longrightarrow>
      extractReasoning text = Inr [''Decision made based on agent perspectives'']) \<and>
   (\<exists>d rs. extraction text = Inr (d, rs))"
proof -
  have 1: "extractDecision text = Inr ''No clear decision reached''"
    if "\<not> ci_includes text ''Final Recommendation''"
    using no_marker_no_decision [OF that] by (simp add: extractDecision_def)
  have 2: "extractReasoning text = Inr [''Decision made based on agent perspectives'']"
    if "\<not> ci_includes text ''Why''"
    using no_marker_no_reasoning [OF that] by (simp add: extractReasoning_def)
  have 3: "\<exists>d rs. extraction text = Inr (d, rs)"
    using extractDecision_total [of "text"] extractReasoning_total [of "text"]
    by (auto simp: extraction_def)
  from 1 2 3 show ?thesis by blast
qed

text \<open>A text with neither marker.\<close>

theorem extraction_falls_back_witness:
  "\<not> ci_includes ''Hold for now.'' ''Final Recommendation'' \<and>
   \<not> ci_includes ''Hold for now.'' ''Why'' \<and>
   extraction ''Hold for now.'' =
     Inr (''No clear decision reached'', [''Decision made based on agent perspectives''])"
proof -
  have a: "\<not> ci_includes ''Hold for now.'' ''Final Recommendation''"
    by code_simp
  have b: "\<not> ci_includes ''Hold for now.'' ''Why''"
    by code_simp
  from a b extraction_falls_back [of "''Hold for now.''"]
  have "extractDecision ''Hold for now.'' = Inr ''No clear decision reached'' \<and>
        extractReasoning ''Hold for now.'' = Inr [''Decision made based on agent perspectives'']"
    by blast
  then have "extraction ''Hold for now.'' =
     Inr (''No clear decision reached'', [''Decision made based on agent perspectives''])"
    by (simp add: extraction_def)
  with a b show ?thesis by blast
qed

section \<open>Metrics\<close>

lemma no_phrase_no_errorRate:
  assumes "\<not> ci_includes q ''error rate''"
  shows "match errorRateRx q = None"
proof (rule ccontr)
  assume "match errorRateRx q \<noteq> None"
  then have "ci_includes q ''error rate''"
    unfolding errorRateRx_def by (rule match_lit_includes)
  with assms show False by simp
qed

lemma no_phrase_no_latency:
  assumes "\<not> ci_includes q ''latency''" and "\<not> ci_includes q ''p95''"
  shows "match latencyRx q = None"
proof (rule ccontr)
  assume "match latencyRx q \<noteq> None"
  then have "ci_includes q ''latency'' \<or> ci_includes q ''p95''"
    unfolding latencyRx_def by (rule match_Alt_lit_includes)
  with assms show False by simp
qed

lemma no_match_no_metrics:
  assumes "match errorRateRx q = None" and "match latencyRx q = None"
  shows "metricsSnapshotOf q = None"
  using assms by (simp add: metricsSnapshotOf_def extractMetrics_def matchedNumber_def)

lemma metrics_colon_example:
  "metricsSnapshotOf ''Should we rollback? error rate: 6.5%, p95 latency: 120ms'' =
     Some \<lparr>errorRate = Some (Num (13 / 2)), latency = Some (Num 120), throughput = None\<rparr>"
  by code_simp

lemma userQuestionOf_asking: "userQuestionOf (asking q) = q"
  by (simp add: userQuestionOf_def asking_def isText_def)

lemma extraction_total: "\<exists>d rs. extraction t = Inr (d, rs)"
  using extractDecision_total [of t] extractReasoning_total [of t]
  by (auto simp: extraction_def)

text \<open>A turn for a decision question whose synthesis and summary arrive stores one incident.\<close>

lemma onChatMessage_stores:
  assumes "isDecisionQuestion (userQuestionOf msgs)"
    and "\<forall>c. \<exists>t. synthesisText e c = Inr t" and "\<forall>c. \<exists>s. summaryText e c = Inr s"
  shows "\<exists>h d rs s. stored (onChatMessage e msgs a) =
           stored a @ [(newIncident e (userQuestionOf msgs) h d rs)\<lparr>summary := Some s\<rparr>]"
proof -
  obtain h where deb: "fst (debate e msgs a) = Some (userQuestionOf msgs, h)"
    using debate_decision [OF assms(1), of e a] by simp
  obtain t where syn: "synthesisText e (synthesisContent (userQuestionOf msgs) h) = Inr t"
    using assms(2) by blast
  obtain d rs where ex: "extraction t = Inr (d, rs)"
    using extraction_total [of t] by blast
  obtain s where sm: "generateSummary e (newIncident e (userQuestionOf msgs) h d rs) = Inr s"
    using assms(3) unfolding generateSummary_def by blast
  from storeIncident_stored [OF syn ex sm, of "snd (debate e msgs a)"]
  show ?thesis
    by (auto simp: onChatMessage_decision [OF deb] stored_debate)
qed


text \<open>
  C2, as the specification words it, fails. The question
  \<open>error rate is 6.5%, p95 latency: 120ms\<close> has no decision keyword: its turn takes the
  regular chat flow and stores no incident, so no snapshot. With a keyword before it
  the turn stores an incident whose snapshot has the latency and no error rate, since
  after \<open>error rate\<close> the pattern takes only colons and white space before the number.
\<close>

theorem metrics_example_fails:
  "\<not> isDecisionQuestion ''error rate is 6.5%, p95 latency: 120ms'' \<and>
   trace (onChatMessage exampleEnv (asking ''error rate is 6.5%, p95 latency: 120ms'') exampleAgent) =
     [RegularChat] \<and>
   map id_inc (stored (onChatMessage exampleEnv (asking ''error rate is 6.5%, p95 latency: 120ms'')
     exampleAgent)) = [''a1'', ''b2''] \<and>
   isDecisionQuestion ''Should we rollback? error rate is 6.5%, p95 latency: 120ms'' \<and>
   map id_inc (stored (onChatMessage exampleEnv
       (asking ''Should we rollback? error rate is 6.5%, p95 latency: 120ms'') exampleAgent)) =
     [''a1'', ''b2'', ''c3''] \<and>
   map metricsSnapshot (stored (onChatMessage exampleEnv
       (asking ''Should we rollback? error rate is 6.5%, p95 latency: 120ms'') exampleAgent)) =
     [None, None, Some \<lparr>errorRate = None, latency = Some (Num 120), throughput = None\<rparr>]"
  by code_simp

text \<open>
  C2, as the code has it. A turn for a decision question whose synthesis text and
  summary arrive stores one incident, with that question. For the decision question
  \<open>Should we rollback? error rate: 6.5%, p95 latency: 120ms\<close> its snapshot has error
  rate 6.5 and latency 120. For every decision question that neither pattern matches
  the incident has no snapshot; such is every decision question that contains none of
  \<open>error rate\<close>, \<open>latency\<close> and \<open>p95\<close> (up to case).
\<close>

theorem metrics_extraction:
  assumes "isDecisionQuestion (userQuestionOf msgs)"
    and "\<forall>c. \<exists>t. synthesisText e c = Inr t" and "\<forall>c. \<exists>s. summaryText e c = Inr s"
  shows "\<exists>inc. stored (onChatMessage e msgs a) = stored a @ [inc] \<and>
           question inc = userQuestionOf msgs \<and>
           (userQuestionOf msgs = ''Should we rollback? error rate: 6.5%, p95 latency: 120ms'' \<longrightarrow>
              metricsSnapshot inc =
                Some \<lparr>errorRate = Some (Num (13 / 2)), latency = Some (Num 120), throughput = None\<rparr>) \<and>
           (match errorRateRx (userQuestionOf msgs) = None \<and> match latencyRx (userQuestionOf msgs) = None \<longrightarrow>
              metricsSnapshot inc = None) \<and>
           (\<not> ci_includes (userQuestionOf msgs) ''error rate'' \<and>
            \<not> ci_includes (userQuestionOf msgs) ''latency'' \<and>
            \<not> ci_includes (userQuestionOf msgs) ''p95'' \<longrightarrow>
              metricsSnapshot inc = None)"
proof -
  let ?q = "userQuestionOf msgs"
  from onChatMessage_stores [OF assms, of a]
  obtain h d rs s where st: "stored (onChatMessage e msgs a) =
      stored a @ [(newIncident e ?q h d rs)\<lparr>summary := Some s\<rparr>]"
    by blast
  let ?inc = "(newIncident e ?q h d rs)\<lparr>summary := Some s\<rparr>"
  have q: "question ?inc = ?q"
    by (simp add: newIncident_def)
  have m: "metricsSnapshot ((newIncident e q' h d rs)\<lparr>summary := Some s\<rparr>) = metricsSnapshotOf q'" for q'
    by (simp add: newIncident_def)
  have 1: "metricsSnapshot ?inc =
             Some \<lparr>errorRate = Some (Num (13 / 2)), latency = Some (Num 120), throughput = None\<rparr>"
    if "?q = ''Should we rollback? error rate: 6.5%, p95 latency: 120ms''"
    using metrics_colon_example by (simp only: m that)
  have 2: "metricsSnapshot ?inc = None"
    if "match errorRateRx ?q = None \<and> match latencyRx ?q = None"
    using no_match_no_metrics [of ?q] that by (simp only: m)
  have 3: "metricsSnapshot ?inc = None"
    if "\<not> ci_includes ?q ''error rate'' \<and> \<not> ci_includes ?q ''latency'' \<and> \<not> ci_includes ?q ''p95''"
    using that no_phrase_no_errorRate [of ?q] no_phrase_no_latency [of ?q] 2 by blast
  from st q 1 2 3 show ?thesis
    by blast
qed

text \<open>The question with the colon, and a decision question without any of the phrases.\<close>

theorem metrics_extraction_witness:
  "isDecisionQuestion ''Should we rollback? error rate: 6.5%, p95 latency: 120ms'' \<and>
   metricsSnapshot (last (stored (onChatMessage exampleEnv
       (asking ''Should we rollback? error rate: 6.5%, p95 latency: 120ms'') exampleAgent))) =
     Some \<lparr>errorRate = Some (Num (13 / 2)), latency = Some (Num 120), throughput = None\<rparr> \<and>
   isDecisionQuestion ''Should we launch?'' \<and>
   \<not> ci_includes ''Should we launch?'' ''error rate'' \<and>
   \<not> ci_includes ''Should we launch?'' ''latency'' \<and>
   \<not> ci_includes ''Should we launch?'' ''p95'' \<and>
   match errorRateRx ''Should we launch?'' = None \<and>
   match latencyRx ''Should we launch?'' = None \<and>
   metricsSnapshot (last (stored (onChatMessage exampleEnv (asking ''Should we launch?'') exampleAgent))) = None"
proof -
  let ?q1 = "''Should we rollback? error rate: 6.5%, p95 latency: 120ms''"
  let ?q2 = "''Should we launch?''"
  have dq1: "isDecisionQuestion ?q1" and dq2: "isDecisionQuestion ?q2"
    by code_simp+
  have a: "\<not> ci_includes ?q2 ''error rate''" "\<not> ci_includes ?q2 ''latency''" "\<not> ci_includes ?q2 ''p95''"
    by code_simp+
  have b: "match errorRateRx ?q2 = None" "match latencyRx ?q2 = None"
    by code_simp+
  have syn: "\<forall>c. \<exists>t. synthesisText exampleEnv c = Inr t"
    and sm: "\<forall>c. \<exists>s. summaryText exampleEnv c = Inr s"
    by (simp_all add: exampleEnv_def)
  have dq1': "isDecisionQuestion (userQuestionOf (asking ?q1))"
    and dq2': "isDecisionQuestion (userQuestionOf (asking ?q2))"
    using dq1 dq2 by (simp_all only: userQuestionOf_asking)
  from metrics_extraction [OF dq1' syn sm, of exampleAgent]
  obtain inc1 where "stored (onChatMessage exampleEnv (asking ?q1) exampleAgent) = stored exampleAgent @ [inc1]"
    and "metricsSnapshot inc1 =
           Some \<lparr>errorRate = Some (Num (13 / 2)), latency = Some (Num 120), throughput = None\<rparr>"
    unfolding userQuestionOf_asking by blast
  then have 1: "metricsSnapshot (last (stored (onChatMessage exampleEnv (asking ?q1) exampleAgent))) =
     Some \<lparr>errorRate = Some (Num (13 / 2)), latency = Some (Num 120), throughput = None\<rparr>"
    by simp
  from metrics_extraction [OF dq2' syn sm, of exampleAgent] a
  obtain inc2 where "stored (onChatMessage exampleEnv (asking ?q2) exampleAgent) = stored exampleAgent @ [inc2]"
    and "metricsSnapshot inc2 = None"
    unfolding userQuestionOf_asking by blast
  then have 2: "metricsSnapshot (last (stored (onChatMessage exampleEnv (asking ?q2) exampleAgent))) = None"
    by simp
  from dq1 dq2 a b 1 2 show ?thesis
    by blast
qed

section \<open>The example block\<close>

text \<open>
  C4, as the specification words it, fails: a text that goes on after the block with a
  further bullet gets a third reasoning entry, and a text with an earlier
  recommendation line gets that line as its decision. Both texts contain the block.
\<close>

theorem block_inside_other_text:
  "extraction (exampleBlock @ nl @ ''- C'') = Inr (''Roll back.'', [''A'', ''B'', ''C'']) \<and>
   extraction (''**Final Recommendation:** Hold.'' @ nl @ nl @ exampleBlock) = Inr (''Hold.'', [''A'', ''B''])"
  by code_simp

text \<open>
  C4, as the code has it. The block is \<open>exampleBlock\<close>. A synthesis text that ends
  with the block, and in which no occurrence (up to case) of
  \<open>**Final Recommendation:**\<close> or of \<open>**Why\<close> begins before the block, gets the
  decision \<open>Roll back.\<close> and the reasoning \<open>A\<close>, \<open>B\<close>.
\<close>

theorem block_at_the_end:
  assumes "\<not> beginsWithin ''**Final Recommendation:**'' p exampleBlock"
    and "\<not> beginsWithin ''**Why'' p exampleBlock"
  shows "extraction (p @ exampleBlock) = Inr (''Roll back.'', [''A'', ''B''])"
proof -
  have "match decisionRx (p @ exampleBlock) = match decisionRx exampleBlock"
    unfolding decisionRx_def using assms(1) by (rule match_skips)
  then have d: "extractDecision (p @ exampleBlock) = extractDecision exampleBlock"
    by (simp add: extractDecision_def)
  have "match whyRx (p @ exampleBlock) = match whyRx exampleBlock"
    unfolding whyRx_def using assms(2) by (rule match_skips)
  then have r: "extractReasoning (p @ exampleBlock) = extractReasoning exampleBlock"
    by (simp add: extractReasoning_def)
  have "extraction (p @ exampleBlock) = extraction exampleBlock"
    by (simp only: extraction_def d r)
  then show ?thesis
    by (simp add: extraction_exampleBlock)
qed

text \<open>The block after the perspectives section of the template.\<close>

theorem block_at_the_end_witness:
  "\<not> beginsWithin ''**Final Recommendation:**''
       (''**Perspectives (1 bullet each):**'' @ nl @ ''- Reliability: roll back'' @ nl @ nl) exampleBlock \<and>
   \<not> beginsWithin ''**Why''
       (''**Perspectives (1 bullet each):**'' @ nl @ ''- Reliability: roll back'' @ nl @ nl) exampleBlock \<and>
   extraction ((''**Perspectives (1 bullet each):**'' @ nl @ ''- Reliability: roll back'' @ nl @ nl) @ exampleBlock) =
     Inr (''Roll back.'', [''A'', ''B''])"
proof -
  let ?p = "''**Perspectives (1 bullet each):**'' @ nl @ ''- Reliability: roll back'' @ nl @ nl"
  have a: "\<not> beginsWithin ''**Final Recommendation:**'' ?p exampleBlock"
    by code_simp
  have b: "\<not> beginsWithin ''**Why'' ?p exampleBlock"
    by code_simp
  from a b block_at_the_end [OF a b] show ?thesis
    by blast
qed

section \<open>Hyphens in the reasoning\<close>

lemma nonBlankPieces_append:
  "nonBlankPieces (u @ CHR ''-'' # v) = nonBlankPieces u @ nonBlankPieces v"
  by (simp add: nonBlankPieces_def splitHyphen_append)

lemma trim_snoc: "\<not> isSpace x \<Longrightarrow> trim (p @ [x]) = dropWhile isSpace p @ [x]"
  by (simp add: trim_def dropWhile_append3)

lemma trim_Cons: "\<not> isSpace y \<Longrightarrow> trim (y # q) = y # rev (dropWhile isSpace (rev q))"
  by (simp add: trim_def dropWhile_append3)

lemma splitHyphen_snoc:
  "x \<noteq> CHR ''-'' \<Longrightarrow>
     \<exists>ps p. splitHyphen acc u = ps @ [p] \<and> splitHyphen acc (u @ [x]) = ps @ [p @ [x]]"
proof (induction u arbitrary: acc)
  case Nil
  then show ?case by simp
next
  case (Cons c u)
  show ?case
  proof (cases "c = CHR ''-''")
    case True
    from Cons.IH [OF Cons.prems, of "[]"] obtain ps p
      where "splitHyphen [] u = ps @ [p]" "splitHyphen [] (u @ [x]) = ps @ [p @ [x]]"
      by blast
    with True have "splitHyphen acc (c # u) = (rev acc # ps) @ [p] \<and>
                    splitHyphen acc ((c # u) @ [x]) = (rev acc # ps) @ [p @ [x]]"
      by simp
    then show ?thesis by blast
  next
    case False
    with Cons.IH [OF Cons.prems, of "c # acc"] show ?thesis
      by simp
  qed
qed

lemma splitHyphen_head: "\<exists>p ps. splitHyphen acc v = (rev acc @ p) # ps"
proof (induction v arbitrary: acc)
  case Nil
  then show ?case by simp
next
  case (Cons c v)
  show ?case
  proof (cases "c = CHR ''-''")
    case True
    then have "splitHyphen acc (c # v) = (rev acc @ []) # splitHyphen [] v"
      by simp
    then show ?thesis by blast
  next
    case False
    from Cons.IH [of "c # acc"] obtain p ps where "splitHyphen (c # acc) v = (rev (c # acc) @ p) # ps"
      by blast
    with False have "splitHyphen acc (c # v) = (rev acc @ (c # p)) # ps"
      by simp
    then show ?thesis by blast
  qed
qed

text \<open>The piece left of a hyphen ends with the character before it.\<close>

lemma nonBlankPieces_left:
  assumes "\<not> isSpace x" and "x \<noteq> CHR ''-''"
  shows "\<exists>qs l. nonBlankPieces (u @ [x]) = qs @ [l @ [x]]"
proof -
  from splitHyphen_snoc [OF assms(2), of "[]" u] obtain ps p
    where "splitHyphen [] (u @ [x]) = ps @ [p @ [x]]"
    by blast
  then have "nonBlankPieces (u @ [x]) =
      map trim (filter (\<lambda>r. trim r \<noteq> []) ps) @ [dropWhile isSpace p @ [x]]"
    using assms(1) by (simp add: nonBlankPieces_def trim_snoc)
  then show ?thesis by blast
qed

text \<open>The piece right of a hyphen begins with the character after it.\<close>

lemma nonBlankPieces_right:
  assumes "\<not> isSpace y" and "y \<noteq> CHR ''-''"
  shows "\<exists>r qs. nonBlankPieces (y # v) = (y # r) # qs"
proof -
  from splitHyphen_head [of "[y]" v] obtain p ps where "splitHyphen [y] v = (y # p) # ps"
    by auto
  then have "splitHyphen [] (y # v) = (y # p) # ps"
    using assms(2) by simp
  then have "nonBlankPieces (y # v) =
      (y # rev (dropWhile isSpace (rev p))) # map trim (filter (\<lambda>r. trim r \<noteq> []) ps)"
    using assms(1) by (simp add: nonBlankPieces_def trim_Cons)
  then show ?thesis by blast
qed

lemma nonBlankPieces_inner_hyphen:
  assumes "\<not> isSpace x" and "x \<noteq> CHR ''-''" and "\<not> isSpace y" and "y \<noteq> CHR ''-''"
  shows "\<exists>l r. 0 < length (nonBlankPieces (u @ [x])) \<and>
           length (nonBlankPieces (u @ [x])) < length (nonBlankPieces (u @ [x] @ ''-'' @ [y] @ v)) \<and>
           nonBlankPieces (u @ [x] @ ''-'' @ [y] @ v) ! (length (nonBlankPieces (u @ [x])) - 1) = l @ [x] \<and>
           nonBlankPieces (u @ [x] @ ''-'' @ [y] @ v) ! length (nonBlankPieces (u @ [x])) = y # r"
proof -
  from nonBlankPieces_left [OF assms(1,2), of u] obtain qs l
    where left: "nonBlankPieces (u @ [x]) = qs @ [l @ [x]]"
    by blast
  from nonBlankPieces_right [OF assms(3,4), of v] obtain r qs'
    where right: "nonBlankPieces (y # v) = (y # r) # qs'"
    by blast
  have "nonBlankPieces (u @ [x] @ ''-'' @ [y] @ v) = nonBlankPieces (u @ [x]) @ nonBlankPieces (y # v)"
    using nonBlankPieces_append [of "u @ [x]" "y # v"] by simp
  then have whole: "nonBlankPieces (u @ [x] @ ''-'' @ [y] @ v) = qs @ [l @ [x]] @ (y # r) # qs'"
    by (simp add: left right)
  have n: "length (nonBlankPieces (u @ [x])) = Suc (length qs)"
    by (simp add: left)
  have a: "(qs @ [l @ [x]] @ (y # r) # qs') ! length qs = l @ [x]"
    by simp
  have b: "(qs @ [l @ [x]] @ (y # r) # qs') ! Suc (length qs) = y # r"
    by (simp add: nth_append)
  from a b show ?thesis
    unfolding whole n by auto
qed


text \<open>
  C10, as it was worded, fails: only the first three non-blank pieces are kept. After
  the bullets \<open>A\<close> and \<open>B\<close> the bullet \<open>low-cost fix\<close> leaves the entry \<open>low\<close> and
  loses \<open>cost fix\<close>, and after three bullets it leaves nothing.
\<close>

theorem reasoning_cut_after_three:
  "extractReasoning (''**Why:**'' @ nl @ ''- A'' @ nl @ ''- B'' @ nl @ ''- low-cost fix'') =
     Inr [''A'', ''B'', ''low''] \<and>
   extractReasoning (''**Why:**'' @ nl @ ''- A'' @ nl @ ''- B'' @ nl @ ''- C'' @ nl @ ''- low-cost fix'') =
     Inr [''A'', ''B'', ''C'']"
  by code_simp

text \<open>
  C10, as the code has it. When the pattern for the reasoning matches with the block
  \<open>g\<close>, the block is cut at every hyphen, wherever it stands; the non-blank pieces,
  trimmed and in their order, are the pieces of the text left of a hyphen followed by
  those of the text right of it, and the first three of them are the reasoning. For a
  hyphen between two characters \<open>x\<close> and \<open>y\<close> that are neither white space nor
  hyphens, the piece that ends with \<open>x\<close> and the piece that begins with \<open>y\<close> are
  consecutive pieces, the \<open>n\<close>-th and the next, and both are reasoning entries when
  \<open>n\<close> is below three. The reasoning has at most three entries, none of them contains
  a hyphen, and non-blank text before the first hyphen is the first entry.
\<close>

theorem reasoning_first_three_pieces:
  assumes "match whyRx text = Some (Some g)"
  shows "extractReasoning text = Inr (take 3 (nonBlankPieces g)) \<and>
         (\<forall>u v. g = u @ ''-'' @ v \<longrightarrow> nonBlankPieces g = nonBlankPieces u @ nonBlankPieces v) \<and>
         (\<forall>u x y v. g = u @ [x] @ ''-'' @ [y] @ v \<and> \<not> isSpace x \<and> x \<noteq> CHR ''-'' \<and>
                     \<not> isSpace y \<and> y \<noteq> CHR ''-'' \<longrightarrow>
            (\<exists>l r. 0 < length (nonBlankPieces (u @ [x])) \<and>
                   length (nonBlankPieces (u @ [x])) < length (nonBlankPieces g) \<and>
                   nonBlankPieces g ! (length (nonBlankPieces (u @ [x])) - 1) = l @ [x] \<and>
                   nonBlankPieces g ! length (nonBlankPieces (u @ [x])) = y # r \<and>
                   (length (nonBlankPieces (u @ [x])) < 3 \<longrightarrow>
                      (\<exists>rs. extractReasoning text = Inr rs \<and>
                            length (nonBlankPieces (u @ [x])) < length rs \<and>
                            rs ! (length (nonBlankPieces (u @ [x])) - 1) = l @ [x] \<and>
                            rs ! length (nonBlankPieces (u @ [x])) = y # r)))) \<and>
         (\<forall>rs. extractReasoning text = Inr rs \<longrightarrow> length rs \<le> 3 \<and> (\<forall>r\<in>set rs. CHR ''-'' \<notin> set r)) \<and>
         (\<forall>pre rest. g = pre @ ''-'' @ rest \<and> CHR ''-'' \<notin> set pre \<and> trim pre \<noteq> [] \<longrightarrow>
            (\<exists>rs. extractReasoning text = Inr (trim pre # rs)))"
proof -
  have ex: "extractReasoning text = Inr (take 3 (nonBlankPieces g))"
    using assms by (simp add: extractReasoning_def nonBlankPieces_def)
  have c2: "\<forall>u v. g = u @ ''-'' @ v \<longrightarrow> nonBlankPieces g = nonBlankPieces u @ nonBlankPieces v"
    by (simp add: nonBlankPieces_append)
  have c3: "\<forall>u x y v. g = u @ [x] @ ''-'' @ [y] @ v \<and> \<not> isSpace x \<and> x \<noteq> CHR ''-'' \<and>
                     \<not> isSpace y \<and> y \<noteq> CHR ''-'' \<longrightarrow>
            (\<exists>l r. 0 < length (nonBlankPieces (u @ [x])) \<and>
                   length (nonBlankPieces (u @ [x])) < length (nonBlankPieces g) \<and>
                   nonBlankPieces g ! (length (nonBlankPieces (u @ [x])) - 1) = l @ [x] \<and>
                   nonBlankPieces g ! length (nonBlankPieces (u @ [x])) = y # r \<and>
                   (length (nonBlankPieces (u @ [x])) < 3 \<longrightarrow>
                      (\<exists>rs. extractReasoning text = Inr rs \<and>
                            length (nonBlankPieces (u @ [x])) < length rs \<and>
                            rs ! (length (nonBlankPieces (u @ [x])) - 1) = l @ [x] \<and>
                            rs ! length (nonBlankPieces (u @ [x])) = y # r)))"
  proof (intro allI impI)
    fix u x y v
    assume h: "g = u @ [x] @ ''-'' @ [y] @ v \<and> \<not> isSpace x \<and> x \<noteq> CHR ''-'' \<and>
               \<not> isSpace y \<and> y \<noteq> CHR ''-''"
    define n where "n = length (nonBlankPieces (u @ [x]))"
    from h nonBlankPieces_inner_hyphen [of x y u v] obtain l r
      where pos: "0 < n" and less: "n < length (nonBlankPieces g)"
        and left: "nonBlankPieces g ! (n - 1) = l @ [x]"
        and right: "nonBlankPieces g ! n = y # r"
      unfolding n_def by blast
    have kept: "\<exists>rs. extractReasoning text = Inr rs \<and> n < length rs \<and>
                  rs ! (n - 1) = l @ [x] \<and> rs ! n = y # r" if "n < 3"
    proof -
      let ?rs = "take 3 (nonBlankPieces g)"
      from that less have "n < length ?rs" by simp
      moreover from that left have "?rs ! (n - 1) = l @ [x]" by simp
      moreover from that right have "?rs ! n = y # r" by simp
      ultimately show ?thesis using ex by blast
    qed
    from pos less left right kept
    show "\<exists>l r. 0 < length (nonBlankPieces (u @ [x])) \<and>
                   length (nonBlankPieces (u @ [x])) < length (nonBlankPieces g) \<and>
                   nonBlankPieces g ! (length (nonBlankPieces (u @ [x])) - 1) = l @ [x] \<and>
                   nonBlankPieces g ! length (nonBlankPieces (u @ [x])) = y # r \<and>
                   (length (nonBlankPieces (u @ [x])) < 3 \<longrightarrow>
                      (\<exists>rs. extractReasoning text = Inr rs \<and>
                            length (nonBlankPieces (u @ [x])) < length rs \<and>
                            rs ! (length (nonBlankPieces (u @ [x])) - 1) = l @ [x] \<and>
                            rs ! length (nonBlankPieces (u @ [x])) = y # r))"
      unfolding n_def by blast
  qed
  have free: "CHR ''-'' \<notin> set r" if "r \<in> set (take 3 (nonBlankPieces g))" for r
  proof -
    from that have "r \<in> set (nonBlankPieces g)"
      by (rule in_set_takeD)
    then obtain r0 where "r0 \<in> set (splitHyphen [] g)" "r = trim r0"
      unfolding nonBlankPieces_def by auto
    with splitHyphen_pieces [of "[]" g] set_trim [of r0] show ?thesis
      by auto
  qed
  have c4: "\<forall>rs. extractReasoning text = Inr rs \<longrightarrow> length rs \<le> 3 \<and> (\<forall>r\<in>set rs. CHR ''-'' \<notin> set r)"
  proof (intro allI impI)
    fix rs
    assume "extractReasoning text = Inr rs"
    with ex have rs: "rs = take 3 (nonBlankPieces g)"
      by simp
    then have "length rs \<le> 3" by simp
    moreover from rs free have "\<forall>r\<in>set rs. CHR ''-'' \<notin> set r" by blast
    ultimately show "length rs \<le> 3 \<and> (\<forall>r\<in>set rs. CHR ''-'' \<notin> set r)" by blast
  qed
  have c5: "\<forall>pre rest. g = pre @ ''-'' @ rest \<and> CHR ''-'' \<notin> set pre \<and> trim pre \<noteq> [] \<longrightarrow>
            (\<exists>rs. extractReasoning text = Inr (trim pre # rs))"
  proof (intro allI impI)
    fix pre rest
    assume h: "g = pre @ ''-'' @ rest \<and> CHR ''-'' \<notin> set pre \<and> trim pre \<noteq> []"
    then have "nonBlankPieces pre = [trim pre]"
      by (simp add: nonBlankPieces_def splitHyphen_plain)
    with h have "nonBlankPieces g = trim pre # nonBlankPieces rest"
      by (simp add: nonBlankPieces_append)
    with ex show "\<exists>rs. extractReasoning text = Inr (trim pre # rs)"
      by simp
  qed
  from ex c2 c3 c4 c5 show ?thesis
    by (intro conjI)
qed


text \<open>A block with prose before the bullet and \<open>low-cost\<close> inside it.\<close>

theorem reasoning_first_three_pieces_witness:
  "match whyRx (''**Why:** because'' @ nl @ ''- low-cost fix'') =
     Some (Some ('' because'' @ nl @ ''- low-cost fix'')) \<and>
   \<not> isSpace CHR ''w'' \<and> \<not> isSpace CHR ''c'' \<and>
   length (nonBlankPieces (('' because'' @ nl @ ''- lo'') @ ''w'')) = 2 \<and>
   (\<exists>rs l r. extractReasoning (''**Why:** because'' @ nl @ ''- low-cost fix'') = Inr rs \<and>
      rs ! 1 = l @ ''w'' \<and> rs ! 2 = CHR ''c'' # r) \<and>
   extractReasoning (''**Why:** because'' @ nl @ ''- low-cost fix'') = Inr [''because'', ''low'', ''cost fix'']"
proof -
  let ?t = "''**Why:** because'' @ nl @ ''- low-cost fix''"
  let ?g = "'' because'' @ nl @ ''- low-cost fix''"
  let ?u = "'' because'' @ nl @ ''- lo''"
  have m: "match whyRx ?t = Some (Some ?g)"
    by code_simp
  have v: "take 3 (nonBlankPieces ?g) = [''because'', ''low'', ''cost fix'']"
    by code_simp
  have n: "length (nonBlankPieces (?u @ ''w'')) = 2"
    by code_simp
  have sp: "\<not> isSpace CHR ''w''" "\<not> isSpace CHR ''c''"
    by code_simp+
  have g: "?g = ?u @ ''w'' @ ''-'' @ ''c'' @ ''ost fix'' \<and> \<not> isSpace CHR ''w'' \<and> CHR ''w'' \<noteq> CHR ''-'' \<and>
             \<not> isSpace CHR ''c'' \<and> CHR ''c'' \<noteq> CHR ''-''"
    using sp by (simp add: nl_def)
  note whole = reasoning_first_three_pieces [OF m]
  from whole have 1: "extractReasoning ?t = Inr (take 3 (nonBlankPieces ?g))"
    by (rule conjunct1)
  from whole have inner: "\<forall>u x y v. ?g = u @ [x] @ ''-'' @ [y] @ v \<and> \<not> isSpace x \<and> x \<noteq> CHR ''-'' \<and>
                     \<not> isSpace y \<and> y \<noteq> CHR ''-'' \<longrightarrow>
            (\<exists>l r. 0 < length (nonBlankPieces (u @ [x])) \<and>
                   length (nonBlankPieces (u @ [x])) < length (nonBlankPieces ?g) \<and>
                   nonBlankPieces ?g ! (length (nonBlankPieces (u @ [x])) - 1) = l @ [x] \<and>
                   nonBlankPieces ?g ! length (nonBlankPieces (u @ [x])) = y # r \<and>
                   (length (nonBlankPieces (u @ [x])) < 3 \<longrightarrow>
                      (\<exists>rs. extractReasoning ?t = Inr rs \<and>
                            length (nonBlankPieces (u @ [x])) < length rs \<and>
                            rs ! (length (nonBlankPieces (u @ [x])) - 1) = l @ [x] \<and>
                            rs ! length (nonBlankPieces (u @ [x])) = y # r)))"
    by (rule conjunct1 [OF conjunct2 [OF conjunct2]])
  from inner [rule_format, OF g] obtain l r
    where "length (nonBlankPieces (?u @ ''w'')) < 3 \<longrightarrow>
             (\<exists>rs. extractReasoning ?t = Inr rs \<and>
                   length (nonBlankPieces (?u @ ''w'')) < length rs \<and>
                   rs ! (length (nonBlankPieces (?u @ ''w'')) - 1) = l @ ''w'' \<and>
                   rs ! length (nonBlankPieces (?u @ ''w'')) = CHR ''c'' # r)"
    by blast
  then have 2: "\<exists>rs l r. extractReasoning ?t = Inr rs \<and> rs ! 1 = l @ ''w'' \<and> rs ! 2 = CHR ''c'' # r"
    unfolding n by auto
  from 1 v have 3: "extractReasoning ?t = Inr [''because'', ''low'', ''cost fix'']"
    by simp
  from m sp n 2 3 show ?thesis
    by (intro conjI)
qed

end
